theory Spec2Isabelle
  imports Main "HOL-Library.Word"
begin

section \<open>JavaScript values\<close>

text \<open>
  A JavaScript string is a sequence of UTF-16 code units. \<open>js\<close> turns an ASCII
  literal of the source (\<^verbatim>\<open>'id'\<close>, \<^verbatim>\<open>'todo_minimal_v1'\<close>) into one.
\<close>

type_synonym cu = "16 word"
type_synonym jsstring = "cu list"

definition js :: "string \<Rightarrow> jsstring" where
  "js s = map (\<lambda>c. of_nat (of_char c)) s"

text \<open>
  The values the component's state can hold are the values \<^verbatim>\<open>JSON.parse\<close> can return
  and the object and array literals of the source, which are of the same shape. An
  object is the list of its own properties in property order. The type \<open>'n\<close> of
  numbers stays a parameter: the code never computes with one.
\<close>

datatype 'n json =
    JNull
  | JBool bool
  | JNum 'n
  | JStr jsstring
  | JArr "'n json list"
  | JObj "(jsstring \<times> 'n json) list"

text \<open>The result of reading a property, or a state cell: \<^verbatim>\<open>undefined\<close>, or a value.\<close>

datatype 'n jsval = Undefined | Val "'n json"

datatype js_error = TypeError | SyntaxError | SecurityError | QuotaExceededError

subsection \<open>\<^verbatim>\<open>String.prototype.trim\<close>\<close>

text \<open>
  \<^verbatim>\<open>trim\<close> removes the code points of WhiteSpace and LineTerminator from both ends:
  TAB, LF, VT, FF, CR, SP, NBSP, U+1680, U+2000 to U+200A, U+2028, U+2029, U+202F,
  U+205F, U+3000 and U+FEFF. All of them are single code units.
\<close>

definition is_white_space :: "cu \<Rightarrow> bool" where
  "is_white_space c \<longleftrightarrow>
     (0x09 \<le> c \<and> c \<le> 0x0D) \<or> c = 0x20 \<or> c = 0xA0 \<or> c = 0x1680 \<or>
     (0x2000 \<le> c \<and> c \<le> 0x200A) \<or> c = 0x2028 \<or> c = 0x2029 \<or> c = 0x202F \<or>
     c = 0x205F \<or> c = 0x3000 \<or> c = 0xFEFF"

definition trim :: "jsstring \<Rightarrow> jsstring" where
  "trim s = rev (dropWhile is_white_space (rev (dropWhile is_white_space s)))"

subsection \<open>\<^verbatim>\<open>Number.prototype.toString(radix)\<close> on integers\<close>

definition digit_char :: "nat \<Rightarrow> cu" where
  "digit_char d = (if d < 10 then 0x30 + of_nat d else 0x61 + of_nat (d - 10))"

function to_radix :: "nat \<Rightarrow> nat \<Rightarrow> jsstring" where
  "to_radix b n =
     (if n < b \<or> b < 2 then [digit_char n]
      else to_radix b (n div b) @ [digit_char (n mod b)])"
  by pat_completeness auto
termination
  by (relation "measure snd") auto

declare to_radix.simps [simp del]

definition int_toString :: "nat \<Rightarrow> int \<Rightarrow> jsstring" where
  "int_toString b i =
     (if i < 0 then 0x2D # to_radix b (nat (- i)) else to_radix b (nat i))"

subsection \<open>Iteration, property reads, object spread\<close>

text \<open>
  Iterating a string yields its code points: a high surrogate followed by a low one is
  one element, every other code unit is an element of its own.
\<close>

definition is_high_surrogate :: "cu \<Rightarrow> bool" where
  "is_high_surrogate c \<longleftrightarrow> 0xD800 \<le> c \<and> c \<le> 0xDBFF"

definition is_low_surrogate :: "cu \<Rightarrow> bool" where
  "is_low_surrogate c \<longleftrightarrow> 0xDC00 \<le> c \<and> c \<le> 0xDFFF"

fun code_points :: "jsstring \<Rightarrow> jsstring list" where
  "code_points [] = []"
| "code_points [c] = [[c]]"
| "code_points (c # d # cs) =
     (if is_high_surrogate c \<and> is_low_surrogate d then [c, d] # code_points cs
      else [c] # code_points (d # cs))"

text \<open>
  The spread \<^verbatim>\<open>[...prev]\<close>: an array and a string are iterable, the other values
  raise a TypeError.
\<close>

fun js_iterate :: "'n json \<Rightarrow> js_error + 'n json list" where
  "js_iterate (JArr xs) = Inr xs"
| "js_iterate (JStr s) = Inr (map JStr (code_points s))"
| "js_iterate _ = Inl TypeError"

text \<open>
  The read \<^verbatim>\<open>t.k\<close>, for the keys \<^verbatim>\<open>id\<close> and \<^verbatim>\<open>text\<close> the source reads, which no
  prototype defines: a TypeError on \<^verbatim>\<open>null\<close>, the own property of an object,
  \<^verbatim>\<open>undefined\<close> on every other value.
\<close>

fun get_prop :: "'n json \<Rightarrow> jsstring \<Rightarrow> js_error + 'n jsval" where
  "get_prop JNull k = Inl TypeError"
| "get_prop (JObj ms) k = Inr (case map_of ms k of None \<Rightarrow> Undefined | Some v \<Rightarrow> Val v)"
| "get_prop _ k = Inr Undefined"

text \<open>
  Property order: the array indices (canonical decimal strings below \<open>2\<^sup>3\<^sup>2 - 1\<close>)
  in ascending order, then the other keys in creation order. Defining a property that
  exists replaces its value in place.
\<close>

definition array_index :: "jsstring \<Rightarrow> nat option" where
  "array_index k =
     (if k \<noteq> [] \<and> list_all (\<lambda>c. 0x30 \<le> c \<and> c \<le> 0x39) k \<and> (k = [0x30] \<or> hd k \<noteq> 0x30)
      then (let n = foldl (\<lambda>a c. 10 * a + unat (c - 0x30)) 0 k
            in if n < 4294967295 then Some n else None)
      else None)"

fun insert_own :: "jsstring \<Rightarrow> 'v \<Rightarrow> (jsstring \<times> 'v) list \<Rightarrow> (jsstring \<times> 'v) list" where
  "insert_own k v [] = [(k, v)]"
| "insert_own k v ((k', v') # ms) =
     (case array_index k of
        None \<Rightarrow> (k', v') # insert_own k v ms
      | Some n \<Rightarrow>
          (case array_index k' of
             None \<Rightarrow> (k, v) # (k', v') # ms
           | Some n' \<Rightarrow>
               if n' < n then (k', v') # insert_own k v ms else (k, v) # (k', v') # ms))"

definition define_own :: "jsstring \<Rightarrow> 'v \<Rightarrow> (jsstring \<times> 'v) list \<Rightarrow> (jsstring \<times> 'v) list" where
  "define_own k v ms =
     (if k \<in> fst ` set ms then map (\<lambda>(k', v'). if k' = k then (k', v) else (k', v')) ms
      else insert_own k v ms)"

text \<open>
  The own enumerable properties an object spread \<^verbatim>\<open>{...t}\<close> copies: those of an
  object, the elements of an array and the code units of a string under their indices,
  none of \<^verbatim>\<open>null\<close>, a boolean or a number.
\<close>

fun own_enumerable :: "'n json \<Rightarrow> (jsstring \<times> 'n json) list" where
  "own_enumerable (JObj ms) = ms"
| "own_enumerable (JArr xs) = zip (map (to_radix 10) [0 ..< length xs]) xs"
| "own_enumerable (JStr s) = zip (map (to_radix 10) [0 ..< length s]) (map (\<lambda>c. JStr [c]) s)"
| "own_enumerable _ = []"

text \<open>\<^verbatim>\<open>Array.prototype.filter\<close> and \<^verbatim>\<open>map\<close> with a callback that may raise.\<close>

fun filter_js :: "('a \<Rightarrow> js_error + bool) \<Rightarrow> 'a list \<Rightarrow> js_error + 'a list" where
  "filter_js p [] = Inr []"
| "filter_js p (x # xs) =
     (case p x of
        Inl e \<Rightarrow> Inl e
      | Inr b \<Rightarrow>
          (case filter_js p xs of
             Inl e \<Rightarrow> Inl e
           | Inr ys \<Rightarrow> Inr (if b then x # ys else ys)))"

fun map_js :: "('a \<Rightarrow> js_error + 'b) \<Rightarrow> 'a list \<Rightarrow> js_error + 'b list" where
  "map_js f [] = Inr []"
| "map_js f (x # xs) =
     (case f x of
        Inl e \<Rightarrow> Inl e
      | Inr y \<Rightarrow>
          (case map_js f xs of
             Inl e \<Rightarrow> Inl e
           | Inr ys \<Rightarrow> Inr (y # ys)))"

text \<open>
  A method call \<^verbatim>\<open>prev.filter(f)\<close> or \<^verbatim>\<open>prev.map(f)\<close>: only an array has the
  method; on any other value of this type the call raises a TypeError.
\<close>

fun array_filter :: "('n json \<Rightarrow> js_error + bool) \<Rightarrow> 'n json \<Rightarrow> js_error + 'n json" where
  "array_filter p (JArr xs) =
     (case filter_js p xs of Inl e \<Rightarrow> Inl e | Inr ys \<Rightarrow> Inr (JArr ys))"
| "array_filter p _ = Inl TypeError"

fun array_map :: "('n json \<Rightarrow> js_error + 'n json) \<Rightarrow> 'n json \<Rightarrow> js_error + 'n json" where
  "array_map f (JArr xs) =
     (case map_js f xs of Inl e \<Rightarrow> Inl e | Inr ys \<Rightarrow> Inr (JArr ys))"
| "array_map f _ = Inl TypeError"

section \<open>\<^verbatim>\<open>JSON.stringify\<close>\<close>

text \<open>
  QuoteJSONString, code point by code point: the short escapes, \<^verbatim>\<open>\uXXXX\<close> in lower-case
  hexadecimal for the other control characters and for a surrogate that is not part of a
  pair, the code units themselves otherwise.
\<close>

definition hex4 :: "cu \<Rightarrow> jsstring" where
  "hex4 c =
     (let n = unat c
      in [digit_char (n div 4096), digit_char (n div 256 mod 16),
          digit_char (n div 16 mod 16), digit_char (n mod 16)])"

definition quote_unit :: "cu \<Rightarrow> jsstring" where
  "quote_unit c =
     (if c = 0x08 then [0x5C, 0x62]
      else if c = 0x09 then [0x5C, 0x74]
      else if c = 0x0A then [0x5C, 0x6E]
      else if c = 0x0C then [0x5C, 0x66]
      else if c = 0x0D then [0x5C, 0x72]
      else if c = 0x22 then [0x5C, 0x22]
      else if c = 0x5C then [0x5C, 0x5C]
      else if c < 0x20 \<or> is_high_surrogate c \<or> is_low_surrogate c then 0x5C # 0x75 # hex4 c
      else [c])"

fun quote_units :: "jsstring \<Rightarrow> jsstring" where
  "quote_units [] = []"
| "quote_units [c] = quote_unit c"
| "quote_units (c # d # cs) =
     (if is_high_surrogate c \<and> is_low_surrogate d then c # d # quote_units cs
      else quote_unit c @ quote_units (d # cs))"

definition quote_json :: "jsstring \<Rightarrow> jsstring" where
  "quote_json s = 0x22 # quote_units s @ [0x22]"

fun join_comma :: "jsstring list \<Rightarrow> jsstring" where
  "join_comma [] = []"
| "join_comma [x] = x"
| "join_comma (x # y # ys) = x @ 0x2C # join_comma (y # ys)"

text \<open>
  \<^verbatim>\<open>JSON.stringify(value)\<close> with no replacer and no indentation. \<open>shw\<close> is what
  it prints for a number.
\<close>

fun JSON_stringify :: "('n \<Rightarrow> jsstring) \<Rightarrow> 'n json \<Rightarrow> jsstring" where
  "JSON_stringify shw JNull = js ''null''"
| "JSON_stringify shw (JBool b) = (if b then js ''true'' else js ''false'')"
| "JSON_stringify shw (JNum n) = shw n"
| "JSON_stringify shw (JStr s) = quote_json s"
| "JSON_stringify shw (JArr xs) = 0x5B # join_comma (map (JSON_stringify shw) xs) @ [0x5D]"
| "JSON_stringify shw (JObj ms) =
     0x7B # join_comma (map (\<lambda>m. quote_json (fst m) @ 0x3A # JSON_stringify shw (snd m)) ms) @ [0x7D]"

section \<open>\<^verbatim>\<open>JSON.parse\<close>\<close>

datatype token =
    TLBracket | TRBracket | TLBrace | TRBrace | TComma | TColon
  | TString jsstring | TNumber jsstring | TTrue | TFalse | TNull

definition is_digit :: "cu \<Rightarrow> bool" where
  "is_digit c \<longleftrightarrow> 0x30 \<le> c \<and> c \<le> 0x39"

definition hex_value :: "cu \<Rightarrow> nat option" where
  "hex_value c =
     (if 0x30 \<le> c \<and> c \<le> 0x39 then Some (unat c - 48)
      else if 0x61 \<le> c \<and> c \<le> 0x66 then Some (unat c - 87)
      else if 0x41 \<le> c \<and> c \<le> 0x46 then Some (unat c - 55)
      else None)"

definition unescape :: "cu \<Rightarrow> cu option" where
  "unescape c =
     (if c = 0x22 \<or> c = 0x5C \<or> c = 0x2F then Some c
      else if c = 0x62 then Some 0x08
      else if c = 0x66 then Some 0x0C
      else if c = 0x6E then Some 0x0A
      else if c = 0x72 then Some 0x0D
      else if c = 0x74 then Some 0x09
      else None)"

definition unhex4 :: "cu \<Rightarrow> cu \<Rightarrow> cu \<Rightarrow> cu \<Rightarrow> cu option" where
  "unhex4 a b c d =
     (case (hex_value a, hex_value b, hex_value c, hex_value d) of
        (Some h3, Some h2, Some h1, Some h0) \<Rightarrow> Some (of_nat (((h3 * 16 + h2) * 16 + h1) * 16 + h0))
      | _ \<Rightarrow> None)"

text \<open>
  The characters of a string literal after its opening quote, up to the closing quote:
  the string denoted and the text that follows.
\<close>

fun lex_string :: "jsstring \<Rightarrow> (jsstring \<times> jsstring) option" where
  "lex_string [] = None"
| "lex_string (c # cs) =
     (if c = 0x22 then Some ([], cs)
      else if c = 0x5C then
        (case cs of
           [] \<Rightarrow> None
         | e # es \<Rightarrow>
             if e = 0x75 then
               (case es of
                  h3 # h2 # h1 # h0 # r \<Rightarrow>
                    (case unhex4 h3 h2 h1 h0 of
                       None \<Rightarrow> None
                     | Some u \<Rightarrow> map_option (\<lambda>(s, r'). (u # s, r')) (lex_string r))
                | _ \<Rightarrow> None)
             else
               (case unescape e of
                  None \<Rightarrow> None
                | Some u \<Rightarrow> map_option (\<lambda>(s, r'). (u # s, r')) (lex_string es)))
      else if c < 0x20 then None
      else map_option (\<lambda>(s, r'). (c # s, r')) (lex_string cs))"


lemma lex_string_shorter:
  "lex_string cs = Some (s, r) \<Longrightarrow> length r < length cs"
proof (induction "length cs" arbitrary: cs s rule: less_induct)
  case less
  from less.prems obtain c cs' where cs: "cs = c # cs'"
    by (cases cs) auto
  have IH: "length r < length ds" if "lex_string ds = Some (s', r)" "length ds < length cs" for ds s'
    using less.hyps that by blast
  from less.prems show ?case
    unfolding cs
    by (auto split: if_splits list.splits option.splits dest!: IH simp: cs)
qed

text \<open>
  A number literal at the head of the text: an optional minus sign, \<^verbatim>\<open>0\<close> or digits
  that do not start with \<^verbatim>\<open>0\<close>, an optional fraction, an optional exponent. The result is
  the literal and the text that follows.
\<close>

definition lex_int :: "jsstring \<Rightarrow> (jsstring \<times> jsstring) option" where
  "lex_int s =
     (case s of
        [] \<Rightarrow> None
      | d # r \<Rightarrow>
          if d = 0x30 then Some ([d], r)
          else if is_digit d then Some (d # takeWhile is_digit r, dropWhile is_digit r)
          else None)"

definition lex_digits1 :: "jsstring \<Rightarrow> (jsstring \<times> jsstring) option" where
  "lex_digits1 s =
     (if takeWhile is_digit s = [] then None
      else Some (takeWhile is_digit s, dropWhile is_digit s))"

definition lex_frac :: "jsstring \<Rightarrow> (jsstring \<times> jsstring) option" where
  "lex_frac s =
     (case s of
        [] \<Rightarrow> Some ([], s)
      | c # r \<Rightarrow>
          if c = 0x2E then map_option (\<lambda>(ds, r'). (c # ds, r')) (lex_digits1 r)
          else Some ([], s))"

definition lex_exp :: "jsstring \<Rightarrow> (jsstring \<times> jsstring) option" where
  "lex_exp s =
     (case s of
        [] \<Rightarrow> Some ([], s)
      | c # r \<Rightarrow>
          if c = 0x65 \<or> c = 0x45 then
            (case r of
               [] \<Rightarrow> None
             | g # r' \<Rightarrow>
                 if g = 0x2B \<or> g = 0x2D
                 then map_option (\<lambda>(ds, r''). (c # g # ds, r'')) (lex_digits1 r')
                 else map_option (\<lambda>(ds, r''). (c # ds, r'')) (lex_digits1 r))
          else Some ([], s))"

definition lex_number :: "jsstring \<Rightarrow> (jsstring \<times> jsstring) option" where
  "lex_number s =
     (let (sign, s1) = (case s of
                          [] \<Rightarrow> ([], s)
                        | c # r \<Rightarrow> if c = 0x2D then ([c], r) else ([], s))
      in case lex_int s1 of
           None \<Rightarrow> None
         | Some (i, s2) \<Rightarrow>
             (case lex_frac s2 of
                None \<Rightarrow> None
              | Some (f, s3) \<Rightarrow>
                  (case lex_exp s3 of
                     None \<Rightarrow> None
                   | Some (e, s4) \<Rightarrow> Some (sign @ i @ f @ e, s4))))"

lemma lex_int_shorter: "lex_int s = Some (l, r) \<Longrightarrow> length r < length s"
  by (auto simp: lex_int_def less_Suc_eq_le length_dropWhile_le split: list.splits if_splits)

lemma lex_digits1_shorter: "lex_digits1 s = Some (l, r) \<Longrightarrow> length r \<le> length s"
  by (auto simp: lex_digits1_def length_dropWhile_le split: if_splits)

lemma lex_frac_shorter: "lex_frac s = Some (l, r) \<Longrightarrow> length r \<le> length s"
  by (auto simp: lex_frac_def le_Suc_eq split: list.splits if_splits dest!: lex_digits1_shorter)

lemma lex_exp_shorter: "lex_exp s = Some (l, r) \<Longrightarrow> length r \<le> length s"
  by (auto simp: lex_exp_def le_Suc_eq split: list.splits if_splits dest!: lex_digits1_shorter)

lemma lex_number_shorter:
  assumes "lex_number (c # cs) = Some (l, r)"
  shows "length r \<le> length cs"
proof -
  obtain sign s1 where s1: "(case c # cs of [] \<Rightarrow> ([], c # cs)
                        | c' # r \<Rightarrow> if c' = 0x2D then ([c'], r) else ([], c # cs)) = (sign, s1)"
    by fastforce
  then have len1: "length s1 \<le> Suc (length cs)"
    by (auto split: if_splits)
  from assms s1 obtain i s2 f s3 e where
    "lex_int s1 = Some (i, s2)" "lex_frac s2 = Some (f, s3)" "lex_exp s3 = Some (e, r)"
    by (auto simp: lex_number_def split: option.splits)
  then have "length s2 < length s1" "length s3 \<le> length s2" "length r \<le> length s3"
    by (auto dest: lex_int_shorter lex_frac_shorter lex_exp_shorter)
  with len1 show ?thesis
    by simp
qed

text \<open>
  The tokens of a text. White space between tokens is TAB, LF, CR and SP; any other
  character that starts no token is a syntax error (\<open>None\<close>).
\<close>

definition is_json_space :: "cu \<Rightarrow> bool" where
  "is_json_space c \<longleftrightarrow> c = 0x09 \<or> c = 0x0A \<or> c = 0x0D \<or> c = 0x20"

function tokenize :: "jsstring \<Rightarrow> token list option" where
  "tokenize [] = Some []"
| "tokenize (c # cs) =
     (if is_json_space c then tokenize cs
      else if c = 0x5B then map_option (Cons TLBracket) (tokenize cs)
      else if c = 0x5D then map_option (Cons TRBracket) (tokenize cs)
      else if c = 0x7B then map_option (Cons TLBrace) (tokenize cs)
      else if c = 0x7D then map_option (Cons TRBrace) (tokenize cs)
      else if c = 0x2C then map_option (Cons TComma) (tokenize cs)
      else if c = 0x3A then map_option (Cons TColon) (tokenize cs)
      else if c = 0x22 then
        (case lex_string cs of
           None \<Rightarrow> None
         | Some (s, r) \<Rightarrow> map_option (Cons (TString s)) (tokenize r))
      else if c = 0x2D \<or> is_digit c then
        (case lex_number (c # cs) of
           None \<Rightarrow> None
         | Some (l, r) \<Rightarrow> map_option (Cons (TNumber l)) (tokenize r))
      else if take 4 (c # cs) = js ''true'' then map_option (Cons TTrue) (tokenize (drop 3 cs))
      else if take 5 (c # cs) = js ''false'' then map_option (Cons TFalse) (tokenize (drop 4 cs))
      else if take 4 (c # cs) = js ''null'' then map_option (Cons TNull) (tokenize (drop 3 cs))
      else None)"
  by pat_completeness auto
termination
  by (relation "measure length")
     (auto simp: less_Suc_eq_le dest: lex_string_shorter lex_number_shorter)

declare tokenize.simps(2) [simp del]

text \<open>
  The grammar, as a machine with a stack that reads one token at a time. A frame is an
  array or an object under construction: the elements read so far, or the members read
  so far and the key whose value is being read. Members are defined in the order of the
  text, so a repeated key keeps its place and takes the last value.
\<close>

datatype 'n frame =
    InArray "'n json list"
  | InObject "(jsstring \<times> 'n json) list" jsstring

datatype 'n mode =
    WantValue
  | ArrayStart
  | ObjectStart
  | WantKey "(jsstring \<times> 'n json) list"
  | WantColon "(jsstring \<times> 'n json) list" jsstring
  | Have "'n json"

fun begin_value ::
  "(jsstring \<Rightarrow> 'n) \<Rightarrow> 'n frame list \<Rightarrow> token \<Rightarrow> ('n mode \<times> 'n frame list) option" where
  "begin_value num st TNull = Some (Have JNull, st)"
| "begin_value num st TTrue = Some (Have (JBool True), st)"
| "begin_value num st TFalse = Some (Have (JBool False), st)"
| "begin_value num st (TString s) = Some (Have (JStr s), st)"
| "begin_value num st (TNumber l) = Some (Have (JNum (num l)), st)"
| "begin_value num st TLBracket = Some (ArrayStart, st)"
| "begin_value num st TLBrace = Some (ObjectStart, st)"
| "begin_value num st _ = None"

fun step ::
  "(jsstring \<Rightarrow> 'n) \<Rightarrow> 'n mode \<times> 'n frame list \<Rightarrow> token \<Rightarrow> ('n mode \<times> 'n frame list) option" where
  "step num (WantValue, st) t = begin_value num st t"
| "step num (ArrayStart, st) t =
     (if t = TRBracket then Some (Have (JArr []), st) else begin_value num (InArray [] # st) t)"
| "step num (ObjectStart, st) t =
     (case t of
        TRBrace \<Rightarrow> Some (Have (JObj []), st)
      | TString k \<Rightarrow> Some (WantColon [] k, st)
      | _ \<Rightarrow> None)"
| "step num (WantKey ms, st) t =
     (case t of TString k \<Rightarrow> Some (WantColon ms k, st) | _ \<Rightarrow> None)"
| "step num (WantColon ms k, st) t =
     (case t of TColon \<Rightarrow> Some (WantValue, InObject ms k # st) | _ \<Rightarrow> None)"
| "step num (Have v, InArray es # st) t =
     (case t of
        TComma \<Rightarrow> Some (WantValue, InArray (es @ [v]) # st)
      | TRBracket \<Rightarrow> Some (Have (JArr (es @ [v])), st)
      | _ \<Rightarrow> None)"
| "step num (Have v, InObject ms k # st) t =
     (case t of
        TComma \<Rightarrow> Some (WantKey (define_own k v ms), st)
      | TRBrace \<Rightarrow> Some (Have (JObj (define_own k v ms)), st)
      | _ \<Rightarrow> None)"
| "step num (Have v, []) t = None"

fun run ::
  "(jsstring \<Rightarrow> 'n) \<Rightarrow> 'n mode \<times> 'n frame list \<Rightarrow> token list \<Rightarrow> 'n json option" where
  "run num (Have v, []) [] = Some v"
| "run num ps [] = None"
| "run num ps (t # ts) = (case step num ps t of None \<Rightarrow> None | Some ps' \<Rightarrow> run num ps' ts)"

text \<open>\<^verbatim>\<open>JSON.parse(text)\<close> with no reviver. \<open>num\<close> is the number a literal denotes.\<close>

definition JSON_parse :: "(jsstring \<Rightarrow> 'n) \<Rightarrow> jsstring \<Rightarrow> js_error + 'n json" where
  "JSON_parse num s =
     (case tokenize s of
        None \<Rightarrow> Inl SyntaxError
      | Some ts \<Rightarrow> (case run num (WantValue, []) ts of None \<Rightarrow> Inl SyntaxError | Some v \<Rightarrow> Inr v))"

section \<open>The component\<close>

subsection \<open>\<^verbatim>\<open>makeId\<close>\<close>

text \<open>
  What a call reads from its environment: \<^verbatim>\<open>Date.now()\<close>, milliseconds since the
  epoch; the string \<^verbatim>\<open>Math.random().toString(36)\<close>, which is \<^verbatim>\<open>0\<close> or starts with
  \<^verbatim>\<open>0.\<close>; and \<^verbatim>\<open>new Date().toISOString()\<close>.
\<close>

record env =
  date_now :: int
  random_36 :: jsstring
  date_iso :: jsstring

definition slice :: "nat \<Rightarrow> nat \<Rightarrow> jsstring \<Rightarrow> jsstring" where
  "slice i j s = take (j - i) (drop i s)"

definition makeId :: "env \<Rightarrow> jsstring" where
  "makeId e = int_toString 36 (date_now e) @ slice 2 7 (random_36 e)"

subsection \<open>State\<close>

text \<open>
  The four state cells of \<^verbatim>\<open>TodoAppExecutable\<close>. \<open>tasks_ref\<close> stands for the identity
  of the array that \<open>tasks\<close> holds: React compares the dependency \<^verbatim>\<open>[tasks]\<close> of the
  persisting effect with \<^verbatim>\<open>Object.is\<close>, by reference.
\<close>

record 'n state =
  tasks :: "'n json"
  tasks_ref :: nat
  input :: jsstring
  editingId :: "'n jsval"
  editingText :: "'n jsval"

definition initial :: "'n state" where
  "initial = \<lparr>tasks = JArr [], tasks_ref = 0, input = [], editingId = Val JNull,
     editingText = Val (JStr [])\<rparr>"

text \<open>
  \<^verbatim>\<open>setTasks(updater)\<close>: React applies the updater to the previous value. Every
  updater of the source builds a new array, so the reference changes. An updater that
  raises makes the render that runs it raise.
\<close>

definition setTasks :: "('n json \<Rightarrow> js_error + 'n json) \<Rightarrow> 'n state \<Rightarrow> js_error + 'n state" where
  "setTasks updater s =
     (case updater (tasks s) of
        Inl e \<Rightarrow> Inl e
      | Inr v \<Rightarrow> Inr (s\<lparr>tasks := v, tasks_ref := Suc (tasks_ref s)\<rparr>))"

subsection \<open>Handlers\<close>

text \<open>
  A handler maps the state to the value it returns and the next state, or to the error
  raised. The \<^verbatim>\<open>onChange\<close> handlers of the two inputs store the typed text.
\<close>

definition onInputChange :: "jsstring \<Rightarrow> 'n state \<Rightarrow> 'n state" where
  "onInputChange v s = s\<lparr>input := v\<rparr>"

definition onEditChange :: "jsstring \<Rightarrow> 'n state \<Rightarrow> 'n state" where
  "onEditChange v s = s\<lparr>editingText := Val (JStr v)\<rparr>"

definition addTask :: "env \<Rightarrow> 'n state \<Rightarrow> js_error + ('n jsval \<times> 'n state)" where
  "addTask e s =
     (let text = trim (input s) in
      if text = [] then Inr (Undefined, s)
      else
        let newTask = JObj [(js ''id'', JStr (makeId e)), (js ''text'', JStr text),
                            (js ''created_at'', JStr (date_iso e))]
        in case setTasks (\<lambda>prev. case js_iterate prev of
                                     Inl x \<Rightarrow> Inl x
                                   | Inr xs \<Rightarrow> Inr (JArr (xs @ [newTask]))) s of
             Inl x \<Rightarrow> Inl x
           | Inr s1 \<Rightarrow> Inr (Undefined, s1\<lparr>input := []\<rparr>))"

definition deleteTask :: "jsstring \<Rightarrow> 'n state \<Rightarrow> js_error + ('n jsval \<times> 'n state)" where
  "deleteTask tid s =
     (case setTasks (array_filter (\<lambda>t. case get_prop t (js ''id'') of
                                          Inl x \<Rightarrow> Inl x
                                        | Inr v \<Rightarrow> Inr (v \<noteq> Val (JStr tid)))) s of
        Inl x \<Rightarrow> Inl x
      | Inr s1 \<Rightarrow> Inr (Undefined, s1))"

definition startEdit :: "'n json \<Rightarrow> 'n state \<Rightarrow> js_error + ('n jsval \<times> 'n state)" where
  "startEdit task s =
     (case get_prop task (js ''id'') of
        Inl x \<Rightarrow> Inl x
      | Inr i \<Rightarrow>
          (case get_prop task (js ''text'') of
             Inl x \<Rightarrow> Inl x
           | Inr t \<Rightarrow> Inr (Undefined, s\<lparr>editingId := i, editingText := t\<rparr>)))"

text \<open>The object literal \<^verbatim>\<open>{ ...t, text }\<close>.\<close>

definition with_text :: "jsstring \<Rightarrow> 'n json \<Rightarrow> 'n json" where
  "with_text text t = JObj (define_own (js ''text'') (JStr text) (own_enumerable t))"

text \<open>
  \<^verbatim>\<open>editingText.trim()\<close> raises a TypeError unless \<open>editingText\<close> is a string. The
  test \<^verbatim>\<open>t.id === id\<close> against a string holds for an object whose \<^verbatim>\<open>id\<close> is that string.
\<close>

definition saveEdit :: "jsstring \<Rightarrow> 'n state \<Rightarrow> js_error + ('n jsval \<times> 'n state)" where
  "saveEdit tid s =
     (case editingText s of
        Val (JStr et) \<Rightarrow>
          (let text = trim et in
           if text = [] then
             Inr (Undefined, s\<lparr>editingId := Val JNull, editingText := Val (JStr [])\<rparr>)
           else
             case setTasks (array_map (\<lambda>t. case get_prop t (js ''id'') of
                                              Inl x \<Rightarrow> Inl x
                                            | Inr v \<Rightarrow>
                                                Inr (if v = Val (JStr tid) then with_text text t
                                                     else t))) s of
               Inl x \<Rightarrow> Inl x
             | Inr s1 \<Rightarrow>
                 Inr (Undefined, s1\<lparr>editingId := Val JNull, editingText := Val (JStr [])\<rparr>))
      | _ \<Rightarrow> Inl TypeError)"

text \<open>The \<^verbatim>\<open>Escape\<close> branch of \<^verbatim>\<open>onEditKeyDown\<close>, and the \<^verbatim>\<open>onClick\<close> of the clear button.\<close>

definition cancelEdit :: "'n state \<Rightarrow> js_error + ('n jsval \<times> 'n state)" where
  "cancelEdit s = Inr (Undefined, s\<lparr>editingId := Val JNull, editingText := Val (JStr [])\<rparr>)"

definition clearClick :: "'n state \<Rightarrow> js_error + ('n jsval \<times> 'n state)" where
  "clearClick s =
     (case setTasks (\<lambda>prev. Inr (JArr [])) s of
        Inl x \<Rightarrow> Inl x
      | Inr s1 \<Rightarrow> Inr (Undefined, s1))"

text \<open>The two \<^verbatim>\<open>onKeyDown\<close> handlers, on the value of \<^verbatim>\<open>e.key\<close>.\<close>

datatype key = Enter | Escape | OtherKey

definition onInputKeyDown :: "env \<Rightarrow> key \<Rightarrow> 'n state \<Rightarrow> js_error + ('n jsval \<times> 'n state)" where
  "onInputKeyDown e k s = (if k = Enter then addTask e s else Inr (Undefined, s))"

definition onEditKeyDown :: "key \<Rightarrow> jsstring \<Rightarrow> 'n state \<Rightarrow> js_error + ('n jsval \<times> 'n state)" where
  "onEditKeyDown k tid s =
     (case (if k = Enter then saveEdit tid s else Inr (Undefined, s)) of
        Inl x \<Rightarrow> Inl x
      | Inr (r, s1) \<Rightarrow> if k = Escape then cancelEdit s1 else Inr (Undefined, s1))"

subsection \<open>\<^verbatim>\<open>localStorage\<close> and the two effects\<close>

text \<open>
  The store maps keys to strings. Whether a call raises is the environment's choice:
  \<open>denied\<close> makes every access raise a SecurityError, \<open>full\<close> makes \<^verbatim>\<open>setItem\<close> raise a
  QuotaExceededError.
\<close>

record local_storage =
  items :: "jsstring \<Rightarrow> jsstring option"
  denied :: bool
  full :: bool

definition getItem :: "local_storage \<Rightarrow> jsstring \<Rightarrow> js_error + jsstring option" where
  "getItem ls k = (if denied ls then Inl SecurityError else Inr (items ls k))"

definition setItem :: "local_storage \<Rightarrow> jsstring \<Rightarrow> jsstring \<Rightarrow> js_error + local_storage" where
  "setItem ls k v =
     (if denied ls then Inl SecurityError
      else if full ls then Inl QuotaExceededError
      else Inr (ls\<lparr>items := (items ls)(k \<mapsto> v)\<rparr>))"

definition STORAGE_KEY :: jsstring where
  "STORAGE_KEY = js ''todo_minimal_v1''"

text \<open>\<^verbatim>\<open>try { ... } catch (e) { ... }\<close>, and the lines \<^verbatim>\<open>console.error\<close> has written.\<close>

type_synonym console = "(jsstring \<times> js_error) list"

definition try_catch :: "js_error + 'a \<Rightarrow> (js_error \<Rightarrow> js_error + 'a) \<Rightarrow> js_error + 'a" where
  "try_catch body handler = (case body of Inl e \<Rightarrow> handler e | Inr x \<Rightarrow> Inr x)"

text \<open>
  The effect that runs on mount. \<^verbatim>\<open>if (raw)\<close> is false for \<^verbatim>\<open>null\<close> and for the empty
  string. The parsed value is stored as it is. (A parsed array or object is a new
  reference; a parsed primitive makes the next render raise on \<^verbatim>\<open>tasks.map\<close> before any
  dependency is compared.)
\<close>

definition load_effect ::
  "(jsstring \<Rightarrow> 'n) \<Rightarrow> local_storage \<Rightarrow> 'n state \<Rightarrow> js_error + ('n state \<times> console)" where
  "load_effect num ls s =
     try_catch
       (case getItem ls STORAGE_KEY of
          Inl x \<Rightarrow> Inl x
        | Inr raw \<Rightarrow>
            (case raw of
               None \<Rightarrow> Inr (s, [])
             | Some r \<Rightarrow>
                 if r = [] then Inr (s, [])
                 else
                   (case JSON_parse num r of
                      Inl x \<Rightarrow> Inl x
                    | Inr v \<Rightarrow>
                        (case setTasks (\<lambda>prev. Inr v) s of
                           Inl x \<Rightarrow> Inl x
                         | Inr s1 \<Rightarrow> Inr (s1, [])))))
       (\<lambda>e. Inr (s, [(js ''Failed to load tasks'', e)]))"

text \<open>The effect with the dependency \<^verbatim>\<open>[tasks]\<close>.\<close>

definition persist_effect ::
  "('n \<Rightarrow> jsstring) \<Rightarrow> 'n state \<Rightarrow> local_storage \<Rightarrow> js_error + (local_storage \<times> console)" where
  "persist_effect shw s ls =
     try_catch
       (case setItem ls STORAGE_KEY (JSON_stringify shw (tasks s)) of
          Inl x \<Rightarrow> Inl x
        | Inr ls1 \<Rightarrow> Inr (ls1, []))
       (\<lambda>e. Inr (ls, [(js ''Failed to save tasks'', e)]))"

text \<open>
  After a render that follows the state \<open>prev\<close> of the render before, React runs the
  persisting effect when \<^verbatim>\<open>tasks\<close> is not the same reference.
\<close>

definition rerender_effects ::
  "('n \<Rightarrow> jsstring) \<Rightarrow> 'n state \<Rightarrow> 'n state \<Rightarrow> local_storage \<Rightarrow>
     js_error + (local_storage \<times> console)" where
  "rerender_effects shw prev cur ls =
     (if tasks_ref cur \<noteq> tasks_ref prev then persist_effect shw cur ls else Inr (ls, []))"

subsection \<open>The rendered list, and mounting\<close>

text \<open>
  Lines 106 to 143. The component reads \<^verbatim>\<open>tasks.length\<close> and calls \<^verbatim>\<open>tasks.map\<close>: on a
  value that is not an array one of the two raises a TypeError, and so does \<^verbatim>\<open>task.id\<close>
  on a \<^verbatim>\<open>null\<close> element. A row with \<^verbatim>\<open>editingId === task.id\<close> is the edit input, whose
  handlers are \<^verbatim>\<open>onEditKeyDown(e, task.id)\<close> and \<^verbatim>\<open>saveEdit(task.id)\<close>; every other row
  shows the text and two buttons, \<^verbatim>\<open>startEdit(task)\<close> and \<^verbatim>\<open>deleteTask(task.id)\<close>.
  \<open>delete_arg\<close> is the argument of the delete button of a row, when the row has one.
  \<^verbatim>\<open>===\<close> is equality of values here, which is what it is on \<^verbatim>\<open>undefined\<close>, \<^verbatim>\<open>null\<close>,
  booleans and strings.
\<close>

datatype 'n row =
    EditRow "'n jsval"
  | ItemRow "'n json" "'n jsval"

definition render_row :: "'n state \<Rightarrow> 'n json \<Rightarrow> js_error + 'n row" where
  "render_row s task =
     (case get_prop task (js ''id'') of
        Inl x \<Rightarrow> Inl x
      | Inr i \<Rightarrow> Inr (if editingId s = i then EditRow i else ItemRow task i))"

definition render :: "'n state \<Rightarrow> js_error + 'n row list" where
  "render s = (case tasks s of JArr xs \<Rightarrow> map_js (render_row s) xs | _ \<Rightarrow> Inl TypeError)"


text \<open>
  Mounting. The first render shows the empty list. Then the two effects run in the
  order of the source, the persisting one on the list of the first render. When the
  loading effect has set a value, the component renders again, outside any
  \<^verbatim>\<open>try\<close>, and the persisting effect runs on the new value.
\<close>

definition mount ::
  "(jsstring \<Rightarrow> 'n) \<Rightarrow> ('n \<Rightarrow> jsstring) \<Rightarrow> local_storage \<Rightarrow>
     js_error + ('n state \<times> local_storage \<times> console)" where
  "mount num shw ls =
     (case load_effect num ls (initial :: 'n state) of
        Inl x \<Rightarrow> Inl x
      | Inr (s1, log1) \<Rightarrow>
          (case persist_effect shw initial ls of
             Inl x \<Rightarrow> Inl x
           | Inr (ls1, log2) \<Rightarrow>
               if tasks_ref s1 = tasks_ref (initial :: 'n state) then Inr (s1, ls1, log1 @ log2)
               else
                 (case render s1 of
                    Inl x \<Rightarrow> Inl x
                  | Inr rows \<Rightarrow>
                      (case rerender_effects shw initial s1 ls1 of
                         Inl x \<Rightarrow> Inl x
                       | Inr (ls2, log3) \<Rightarrow> Inr (s1, ls2, log1 @ log2 @ log3)))))"

text \<open>What a handler call returned, when it did not raise.\<close>

definition returned :: "js_error + ('n jsval \<times> 'n state) \<Rightarrow> 'n jsval option" where
  "returned r = (case r of Inl x \<Rightarrow> None | Inr (v, s) \<Rightarrow> Some v)"

section \<open>Task lists\<close>

text \<open>
  A task as the data model describes it, three strings, and the object that
  \<^verbatim>\<open>addTask\<close> builds for it. \<open>has_id\<close> is the test \<^verbatim>\<open>t.id === id\<close>.
\<close>

record task =
  task_id :: jsstring
  task_text :: jsstring
  task_created_at :: jsstring

definition task_obj :: "task \<Rightarrow> 'n json" where
  "task_obj t = JObj [(js ''id'', JStr (task_id t)), (js ''text'', JStr (task_text t)),
                      (js ''created_at'', JStr (task_created_at t))]"

definition has_id :: "jsstring \<Rightarrow> 'n json \<Rightarrow> bool" where
  "has_id tid t \<longleftrightarrow> get_prop t (js ''id'') = Inr (Val (JStr tid))"

subsection \<open>Sample inputs\<close>

text \<open>The samples hold no number; their number type is \<open>nat\<close>.\<close>

definition env0 :: env where
  "env0 = \<lparr>date_now = 1700000000000, random_36 = js ''0.4fzyo82mvyr'',
            date_iso = js ''2023-11-14T22:13:20.000Z''\<rparr>"

definition milk :: "nat json" where
  "milk = task_obj \<lparr>task_id = makeId env0, task_text = js ''Buy milk'',
                    task_created_at = date_iso env0\<rparr>"

definition task_a :: "nat json" where
  "task_a = task_obj \<lparr>task_id = js ''a'', task_text = js ''X'',
                      task_created_at = js ''2024-01-01T00:00:00Z''\<rparr>"

definition task_b :: "nat json" where
  "task_b = task_obj \<lparr>task_id = js ''b'', task_text = js ''Y'',
                      task_created_at = js ''2024-01-02T00:00:00Z''\<rparr>"

text \<open>The list \<open>[task_a, task_b]\<close> with the first task open for editing.\<close>

definition editing_a :: "nat state" where
  "editing_a = \<lparr>tasks = JArr [task_a, task_b], tasks_ref = 2, input = [],
                 editingId = Val (JStr (js ''a'')), editingText = Val (JStr (js ''X''))\<rparr>"

text \<open>
  A second call in the same millisecond as \<open>env0\<close>, whose random number differs from
  the sixth digit on, and a call one millisecond later.
\<close>

definition env1 :: env where
  "env1 = \<lparr>date_now = 1700000000000, random_36 = js ''0.4fzyoq1x7c'',
            date_iso = js ''2023-11-14T22:13:20.000Z''\<rparr>"

definition env2 :: env where
  "env2 = \<lparr>date_now = 1700000000001, random_36 = js ''0.4fzyo82mvyr'',
            date_iso = js ''2023-11-14T22:13:20.001Z''\<rparr>"

definition call :: "nat json" where
  "call = task_obj \<lparr>task_id = makeId env1, task_text = js ''Call'',
                    task_created_at = date_iso env1\<rparr>"

text \<open>
  Stores: an empty one, and one holding a given text under the key. A text cut short,
  and a text whose two records share an id, the first with a blank text, the second
  with no \<^verbatim>\<open>created_at\<close>.
\<close>

definition num0 :: "jsstring \<Rightarrow> nat" where
  "num0 l = 0"

definition empty_storage :: local_storage where
  "empty_storage = \<lparr>items = (\<lambda>k. None), denied = False, full = False\<rparr>"

definition storage_with :: "jsstring \<Rightarrow> local_storage" where
  "storage_with text = \<lparr>items = [STORAGE_KEY \<mapsto> text], denied = False, full = False\<rparr>"

definition corrupt_text :: jsstring where
  "corrupt_text = js ''[{\"id\":\"a\",''"

definition malformed_text :: jsstring where
  "malformed_text =
     js ''[{\"id\":\"a\",\"text\":\"  \",\"created_at\":\"t\"},{\"id\":\"a\",\"text\":\"X\"}]''"

definition blank_task :: "nat json" where
  "blank_task = JObj [(js ''id'', JStr (js ''a'')), (js ''text'', JStr (js ''  '')),
                      (js ''created_at'', JStr (js ''t''))]"

definition short_task :: "nat json" where
  "short_task = JObj [(js ''id'', JStr (js ''a'')), (js ''text'', JStr (js ''X''))]"

text \<open>A stored text that is valid JSON and no list.\<close>

definition null_text :: jsstring where
  "null_text = js ''null''"

definition show0 :: "nat \<Rightarrow> jsstring" where
  "show0 n = to_radix 10 n"

section \<open>Properties of the handlers\<close>

lemma js_keys_distinct:
  "js ''id'' \<noteq> js ''text''" "js ''text'' \<noteq> js ''id''"
  "js ''id'' \<noteq> js ''created_at''" "js ''created_at'' \<noteq> js ''id''"
  "js ''text'' \<noteq> js ''created_at''" "js ''created_at'' \<noteq> js ''text''"
  by (simp_all add: js_def)

lemma get_prop_task_obj:
  "get_prop (task_obj t) (js ''id'') = Inr (Val (JStr (task_id t)))"
  "get_prop (task_obj t) (js ''text'') = Inr (Val (JStr (task_text t)))"
  "get_prop (task_obj t) (js ''created_at'') = Inr (Val (JStr (task_created_at t)))"
  by (simp_all add: task_obj_def js_keys_distinct)

lemma trim_milk: "trim (js '' Buy milk  '') = js ''Buy milk''"
  by (simp add: trim_def js_def is_white_space_def)

subsection \<open>\<^verbatim>\<open>addTask\<close>\<close>

lemma addTask_blank:
  "trim (input s) = [] \<Longrightarrow> addTask e s = Inr (Undefined, s)"
  by (simp add: addTask_def)

lemma addTask_array:
  "trim (input s) \<noteq> [] \<Longrightarrow> tasks s = JArr xs \<Longrightarrow>
   addTask e s =
     Inr (Undefined,
          s\<lparr>tasks := JArr (xs @ [task_obj \<lparr>task_id = makeId e, task_text = trim (input s),
                                             task_created_at = date_iso e\<rparr>]),
            tasks_ref := Suc (tasks_ref s), input := []\<rparr>)"
  by (simp add: addTask_def setTasks_def Let_def task_obj_def)

text \<open>
  C1, as the code has it. With \<open>raw\<close> typed into the input and the list an array
  \<open>xs\<close>: when \<open>trim raw\<close> is empty, \<^verbatim>\<open>addTask\<close> returns \<^verbatim>\<open>undefined\<close> and changes
  nothing; otherwise the list becomes \<open>xs\<close> followed by exactly one new task whose text
  is \<open>trim raw\<close>, one element longer, and the handler again returns \<^verbatim>\<open>undefined\<close>: the
  created task is the last element of the list, not the value returned.
\<close>

theorem addTask_appends:
  assumes "tasks s = JArr xs"
  shows "if trim raw = []
         then addTask e (onInputChange raw s) = Inr (Undefined, onInputChange raw s)
         else \<exists>t s'. addTask e (onInputChange raw s) = Inr (Undefined, s') \<and>
                tasks s' = JArr (xs @ [t]) \<and> length (xs @ [t]) = length xs + 1 \<and>
                get_prop t (js ''text'') = Inr (Val (JStr (trim raw)))"
proof (cases "trim raw = []")
  case True
  then show ?thesis
    by (simp add: addTask_blank onInputChange_def)
next
  case False
  let ?s = "onInputChange raw s"
  have "trim (input ?s) \<noteq> []" "tasks ?s = JArr xs"
    using False assms by (simp_all add: onInputChange_def)
  from addTask_array [OF this, of e] show ?thesis
    using False by (simp add: get_prop_task_obj onInputChange_def)
qed

theorem addTask_appends_witness:
  "\<exists>t s'. addTask env0 (onInputChange (js '' Buy milk  '') (initial :: nat state)) =
            Inr (Undefined, s') \<and>
          tasks s' = JArr [t] \<and> get_prop t (js ''text'') = Inr (Val (JStr (js ''Buy milk'')))"
proof -
  have 1: "tasks (initial :: nat state) = JArr []"
    by (simp add: initial_def)
  have 2: "trim (js '' Buy milk  '') \<noteq> []"
    by (simp add: trim_milk) (simp add: js_def)
  from addTask_appends [OF 1, of "js '' Buy milk  ''" env0] 2 show ?thesis
    by (simp add: trim_milk)
qed

text \<open>
  C1 as stated fails on the value returned: adding \<^verbatim>\<open>' Buy milk  '\<close> to the empty list
  creates the task \<open>milk\<close> and returns \<^verbatim>\<open>undefined\<close>.
\<close>

theorem addTask_returns_undefined:
  "addTask env0 (onInputChange (js '' Buy milk  '') initial) =
     Inr (Undefined, initial\<lparr>tasks := JArr [milk], tasks_ref := 1\<rparr>) \<and>
   returned (addTask env0 (onInputChange (js '' Buy milk  '') initial)) \<noteq> Some (Val milk)"
  by (simp add: returned_def addTask_def setTasks_def onInputChange_def initial_def milk_def task_obj_def
      env0_def trim_def js_def is_white_space_def Let_def)

lemma js_ab: "js ''a'' \<noteq> js ''b''" "js ''b'' \<noteq> js ''a''"
  by (simp_all add: js_def)

lemma has_id_task_obj: "has_id tid (task_obj t) \<longleftrightarrow> task_id t = tid"
  by (simp add: has_id_def get_prop_task_obj)

lemma startEdit_task_a:
  "startEdit task_a (initial\<lparr>tasks := JArr [task_a, task_b], tasks_ref := 2\<rparr>) = Inr (Undefined, editing_a)"
  by (simp add: startEdit_def task_a_def get_prop_task_obj editing_a_def initial_def)

subsection \<open>\<^verbatim>\<open>deleteTask\<close> and the clear button\<close>

lemma filter_js_total:
  "(\<And>x. x \<in> set xs \<Longrightarrow> p x = Inr (q x)) \<Longrightarrow> filter_js p xs = Inr (filter q xs)"
  by (induction xs) auto

lemma map_js_total:
  "(\<And>x. x \<in> set xs \<Longrightarrow> f x = Inr (g x)) \<Longrightarrow> map_js f xs = Inr (map g xs)"
  by (induction xs) auto

lemma get_prop_defined:
  "t \<noteq> JNull \<Longrightarrow> \<exists>v. get_prop t k = Inr v"
  by (cases t) auto

lemma id_test_total:
  assumes "t \<noteq> JNull"
  shows "(case get_prop t (js ''id'') of Inl x \<Rightarrow> Inl x | Inr v \<Rightarrow> Inr (v \<noteq> Val (JStr tid)))
         = Inr (\<not> has_id tid t)"
  using get_prop_defined [OF assms, of "js ''id''"] by (auto simp: has_id_def)

lemma deleteTask_array:
  assumes "tasks s = JArr xs" "JNull \<notin> set xs"
  shows "deleteTask tid s =
         Inr (Undefined, s\<lparr>tasks := JArr (filter (\<lambda>t. \<not> has_id tid t) xs), tasks_ref := Suc (tasks_ref s)\<rparr>)"
proof -
  have "filter_js (\<lambda>t. case get_prop t (js ''id'') of Inl x \<Rightarrow> Inl x | Inr v \<Rightarrow> Inr (v \<noteq> Val (JStr tid))) xs
        = Inr (filter (\<lambda>t. \<not> has_id tid t) xs)"
    using assms(2) by (intro filter_js_total id_test_total) auto
  then show ?thesis
    by (simp add: deleteTask_def setTasks_def assms(1))
qed

text \<open>A \<^verbatim>\<open>null\<close> element, which only a loaded list can hold, makes the filter raise.\<close>

lemma deleteTask_null_element:
  "tasks s = JArr (JNull # xs) \<Longrightarrow> deleteTask tid s = Inl TypeError"
  by (simp add: deleteTask_def setTasks_def)

lemma editing_a_tasks:
  "tasks editing_a = JArr [task_a, task_b]" "JNull \<notin> set [task_a, task_b]"
  by (simp_all add: editing_a_def task_a_def task_b_def task_obj_def)

lemma has_id_a:
  "has_id (js ''a'') task_a" "\<not> has_id (js ''a'') task_b"
  by (simp_all add: task_a_def task_b_def has_id_task_obj js_ab)

text \<open>
  C2, as the code has it. On a list \<open>xs\<close> with no \<^verbatim>\<open>null\<close> element,
  \<^verbatim>\<open>deleteTask(id)\<close> keeps exactly the tasks whose id is not \<open>id\<close>, in their order,
  and returns \<^verbatim>\<open>undefined\<close>; a second call returns \<^verbatim>\<open>undefined\<close> again and leaves the
  list as the first call left it.
\<close>

theorem deleteTask_removes:
  assumes "tasks s = JArr xs" and "JNull \<notin> set xs"
  shows "\<exists>s' s''. deleteTask tid s = Inr (Undefined, s') \<and>
           tasks s' = JArr (filter (\<lambda>t. \<not> has_id tid t) xs) \<and>
           deleteTask tid s' = Inr (Undefined, s'') \<and> tasks s'' = tasks s'"
proof -
  let ?ys = "filter (\<lambda>t. \<not> has_id tid t) xs"
  let ?s' = "s\<lparr>tasks := JArr ?ys, tasks_ref := Suc (tasks_ref s)\<rparr>"
  have first: "deleteTask tid s = Inr (Undefined, ?s')"
    using assms by (rule deleteTask_array)
  have "tasks ?s' = JArr ?ys" "JNull \<notin> set ?ys"
    using assms(2) by simp_all
  from deleteTask_array [OF this, of tid]
  have "deleteTask tid ?s' = Inr (Undefined, ?s'\<lparr>tasks := JArr ?ys, tasks_ref := Suc (tasks_ref ?s')\<rparr>)"
    by simp
  with first show ?thesis
    by simp
qed

theorem deleteTask_removes_witness:
  "\<exists>s' s''. deleteTask (js ''a'') editing_a = Inr (Undefined, s') \<and>
     tasks s' = JArr [task_b] \<and>
     deleteTask (js ''a'') s' = Inr (Undefined, s'') \<and> tasks s'' = tasks s'"
  using deleteTask_removes [OF editing_a_tasks, of "js ''a''"]
  by (simp add: has_id_a)

text \<open>
  C2 as stated fails on the value returned: deleting \<^verbatim>\<open>a\<close> from \<open>[task_a, task_b]\<close>
  removes a task and returns \<^verbatim>\<open>undefined\<close>, not \<^verbatim>\<open>true\<close>.
\<close>

theorem deleteTask_returns_undefined:
  "deleteTask (js ''a'') editing_a =
     Inr (Undefined, editing_a\<lparr>tasks := JArr [task_b], tasks_ref := 3\<rparr>) \<and>
   returned (deleteTask (js ''a'') editing_a) \<noteq> Some (Val (JBool True))"
  by (simp add: deleteTask_array [OF editing_a_tasks] has_id_a returned_def)
     (simp add: editing_a_def)

text \<open>
  C4, as the code has it. From every state, the clear button's handler leaves the list
  empty; it does not touch the editing pointer or the edit buffer.
\<close>

theorem clearClick_empties:
  "\<exists>s'. clearClick s = Inr (Undefined, s') \<and> tasks s' = JArr [] \<and>
     editingId s' = editingId s \<and> editingText s' = editingText s"
  by (simp add: clearClick_def setTasks_def)

text \<open>
  C4 as stated fails on the editing pointer: cleared while \<^verbatim>\<open>a\<close> is being edited, the
  state still points at \<^verbatim>\<open>a\<close>.
\<close>

theorem clearClick_keeps_editing:
  "clearClick editing_a = Inr (Undefined, editing_a\<lparr>tasks := JArr [], tasks_ref := 3\<rparr>) \<and>
   editingId (editing_a\<lparr>tasks := JArr [], tasks_ref := 3\<rparr>) = Val (JStr (js ''a'')) \<and>
   Val (JStr (js ''a'')) \<noteq> Val JNull"
  by (simp add: clearClick_def setTasks_def editing_a_def)




lemma render_not_array: "(\<And>xs. tasks s \<noteq> JArr xs) \<Longrightarrow> render s = Inl TypeError"
  by (cases "tasks s") (auto simp: render_def)









subsection \<open>\<^verbatim>\<open>saveEdit\<close>\<close>

lemma map_of_replace_other:
  "j \<noteq> k \<Longrightarrow>
   map_of (map (\<lambda>(k', v'). if k' = k then (k', v) else (k', v')) ms) j = map_of ms j"
  by (induction ms) (simp_all add: case_prod_unfold)

lemma map_of_replace_same:
  "k \<in> fst ` set ms \<Longrightarrow>
   map_of (map (\<lambda>(k', v'). if k' = k then (k', v) else (k', v')) ms) k = Some v"
  by (induction ms) (auto simp: case_prod_unfold)

lemma map_of_insert_own_other:
  "j \<noteq> k \<Longrightarrow> map_of (insert_own k v ms) j = map_of ms j"
  by (induction k v ms rule: insert_own.induct) (simp_all split: option.splits)

lemma map_of_insert_own_same:
  "k \<notin> fst ` set ms \<Longrightarrow> map_of (insert_own k v ms) k = Some v"
  by (induction k v ms rule: insert_own.induct) (simp_all split: option.splits)

lemma map_of_define_own:
  "map_of (define_own k v ms) j = (if j = k then Some v else map_of ms j)"
  by (simp add: define_own_def map_of_replace_other map_of_replace_same
      map_of_insert_own_other map_of_insert_own_same)

lemma has_id_obj: "has_id tid t \<Longrightarrow> \<exists>ms. t = JObj ms"
  by (cases t) (simp_all add: has_id_def)

lemma get_prop_with_text:
  assumes "has_id tid t"
  shows "get_prop (with_text text t) k =
         (if k = js ''text'' then Inr (Val (JStr text)) else get_prop t k)"
proof -
  from has_id_obj [OF assms] obtain ms where "t = JObj ms" ..
  then show ?thesis
    by (simp add: with_text_def map_of_define_own)
qed

lemma edit_test_total:
  assumes "t \<noteq> JNull"
  shows "(case get_prop t (js ''id'') of
            Inl x \<Rightarrow> Inl x
          | Inr v \<Rightarrow> Inr (if v = Val (JStr tid) then with_text text t else t))
         = Inr (if has_id tid t then with_text text t else t)"
  using get_prop_defined [OF assms, of "js ''id''"] by (auto simp: has_id_def)

lemma saveEdit_blank:
  assumes "editingText s = Val (JStr et)" and "trim et = []"
  shows "saveEdit tid s =
         Inr (Undefined, s\<lparr>editingId := Val JNull, editingText := Val (JStr [])\<rparr>)"
  using assms by (simp add: saveEdit_def)

lemma saveEdit_array:
  assumes "editingText s = Val (JStr et)" and "trim et \<noteq> []"
    and "tasks s = JArr xs" and "JNull \<notin> set xs"
  shows "saveEdit tid s =
         Inr (Undefined,
              s\<lparr>tasks := JArr (map (\<lambda>t. if has_id tid t then with_text (trim et) t else t) xs),
                tasks_ref := Suc (tasks_ref s),
                editingId := Val JNull, editingText := Val (JStr [])\<rparr>)"
proof -
  have "map_js (\<lambda>t. case get_prop t (js ''id'') of
                       Inl x \<Rightarrow> Inl x
                     | Inr v \<Rightarrow> Inr (if v = Val (JStr tid) then with_text (trim et) t else t)) xs
        = Inr (map (\<lambda>t. if has_id tid t then with_text (trim et) t else t) xs)"
    using assms(4) by (intro map_js_total edit_test_total) auto
  then show ?thesis
    using assms(1,2,3) by (simp add: saveEdit_def setTasks_def)
qed

text \<open>
  C3, as the code has it. \<^verbatim>\<open>commitEdit(id, rawText)\<close> is \<^verbatim>\<open>saveEdit(id)\<close> with
  \<open>rawText\<close> in the edit buffer. On a list \<open>xs\<close> with no \<^verbatim>\<open>null\<close> element it returns
  \<^verbatim>\<open>undefined\<close> and clears the editing pointer; when \<open>trim rawText\<close> is empty the list
  is unchanged; otherwise the list keeps its length and every task whose id is \<open>id\<close>
  has \<open>trim rawText\<close> as its text.
\<close>

theorem saveEdit_commits:
  assumes "tasks s = JArr xs" and "JNull \<notin> set xs"
  shows "\<exists>s'. saveEdit tid (onEditChange raw s) = Inr (Undefined, s') \<and>
           editingId s' = Val JNull \<and>
           (if trim raw = [] then tasks s' = JArr xs
            else \<exists>ys. tasks s' = JArr ys \<and> length ys = length xs \<and>
                   (\<forall>i<length xs. has_id tid (xs ! i) \<longrightarrow>
                      get_prop (ys ! i) (js ''text'') = Inr (Val (JStr (trim raw)))))"
proof (cases "trim raw = []")
  case True
  have "editingText (onEditChange raw s) = Val (JStr raw)"
    by (simp add: onEditChange_def)
  from saveEdit_blank [OF this True, of tid] show ?thesis
    using True assms(1) by (simp add: onEditChange_def)
next
  case False
  let ?s = "onEditChange raw s"
  have "editingText ?s = Val (JStr raw)" "tasks ?s = JArr xs"
    using assms(1) by (simp_all add: onEditChange_def)
  from saveEdit_array [OF this(1) False this(2) assms(2), of tid] show ?thesis
    using False by (simp add: get_prop_with_text)
qed

theorem saveEdit_commits_witness:
  "\<exists>s'. saveEdit (js ''a'') (onEditChange (js '' Buy milk  '') editing_a) =
          Inr (Undefined, s') \<and>
     editingId s' = Val JNull \<and>
     (\<exists>ys. tasks s' = JArr ys \<and> length ys = 2 \<and>
        get_prop (ys ! 0) (js ''text'') = Inr (Val (JStr (js ''Buy milk''))))"
proof -
  have ne: "trim (js '' Buy milk  '') \<noteq> []"
    by (simp add: trim_milk) (simp add: js_def)
  from saveEdit_commits [OF editing_a_tasks, of "js ''a''" "js '' Buy milk  ''"] ne
  show ?thesis
    using has_id_a(1) by (fastforce simp: trim_milk)
qed

text \<open>
  C3 as stated fails on the value returned: committing \<^verbatim>\<open>' Buy milk  '\<close> on the
  task \<^verbatim>\<open>a\<close>, which exists, replaces its text and returns \<^verbatim>\<open>undefined\<close>, not \<^verbatim>\<open>true\<close>.
\<close>

theorem saveEdit_returns_undefined:
  "saveEdit (js ''a'') (onEditChange (js '' Buy milk  '') editing_a) =
     Inr (Undefined,
          editing_a\<lparr>tasks := JArr [with_text (js ''Buy milk'') task_a, task_b], tasks_ref := 3,
                    editingId := Val JNull, editingText := Val (JStr [])\<rparr>) \<and>
   has_id (js ''a'') task_a \<and>
   returned (saveEdit (js ''a'') (onEditChange (js '' Buy milk  '') editing_a)) \<noteq>
     Some (Val (JBool True))"
proof -
  let ?s = "onEditChange (js '' Buy milk  '') editing_a"
  have ne: "trim (js '' Buy milk  '') \<noteq> []"
    by (simp add: trim_milk) (simp add: js_def)
  have "editingText ?s = Val (JStr (js '' Buy milk  ''))" "tasks ?s = JArr [task_a, task_b]"
    by (simp_all add: onEditChange_def editing_a_tasks)
  from saveEdit_array [OF this(1) ne this(2) editing_a_tasks(2), of "js ''a''"]
  show ?thesis
    by (simp add: has_id_a trim_milk returned_def) (simp add: onEditChange_def editing_a_def)
qed


subsection \<open>\<^verbatim>\<open>makeId\<close>\<close>

lemma unat_digit_char:
  "d < 36 \<Longrightarrow> unat (digit_char d) = (if d < 10 then 48 + d else 87 + d)"
  by (simp add: digit_char_def unat_word_ariths unat_of_nat)

lemma digit_char_inj:
  assumes "d < 36" "d' < 36" "digit_char d = digit_char d'"
  shows "d = d'"
proof -
  from assms(3) have "unat (digit_char d) = unat (digit_char d')"
    by simp
  with assms(1,2) show ?thesis
    by (simp add: unat_digit_char split: if_splits)
qed

lemma digit_char_not_minus:
  "d < 36 \<Longrightarrow> digit_char d \<noteq> 0x2D"
proof
  assume "d < 36" "digit_char d = 0x2D"
  then have "unat (digit_char d) = 45"
    by simp
  with \<open>d < 36\<close> show False
    by (simp add: unat_digit_char split: if_splits)
qed

lemma to_radix_nonempty: "to_radix b n \<noteq> []"
  by (subst to_radix.simps) simp

lemma to_radix_length_one:
  "2 \<le> b \<Longrightarrow> length (to_radix b n) = Suc 0 \<longleftrightarrow> n < b"
  using to_radix_nonempty [of b "n div b"]
  by (subst to_radix.simps) (auto simp: Suc_le_eq)

lemma to_radix_inj:
  "2 \<le> b \<Longrightarrow> b \<le> 36 \<Longrightarrow> to_radix b n = to_radix b m \<Longrightarrow> n = m"
proof (induction b n arbitrary: m rule: to_radix.induct)
  case (1 b n)
  show ?case
  proof (cases "n < b")
    case True
    with "1.prems"(1,3) have "length (to_radix b m) = Suc 0"
      by (metis to_radix_length_one)
    with "1.prems"(1) have "m < b"
      by (simp add: to_radix_length_one)
    with True "1.prems" have "digit_char n = digit_char m"
      by (simp add: to_radix.simps [of b n] to_radix.simps [of b m])
    with True \<open>m < b\<close> "1.prems"(2) show ?thesis
      by (intro digit_char_inj) auto
  next
    case False
    with "1.prems"(1,3) have "length (to_radix b m) \<noteq> Suc 0"
      by (metis to_radix_length_one)
    with "1.prems"(1) have m: "\<not> m < b"
      by (simp add: to_radix_length_one)
    from False m "1.prems" have eq:
      "to_radix b (n div b) @ [digit_char (n mod b)] = to_radix b (m div b) @ [digit_char (m mod b)]"
      by (simp add: to_radix.simps [of b n] to_radix.simps [of b m])
    then have "to_radix b (n div b) = to_radix b (m div b)" "digit_char (n mod b) = digit_char (m mod b)"
      by simp_all
    with "1.IH" False "1.prems"(1,2) have "n div b = m div b"
      by auto
    moreover have "n mod b = m mod b"
      using \<open>digit_char (n mod b) = digit_char (m mod b)\<close> "1.prems"(1,2)
      by (intro digit_char_inj) (auto intro: less_le_trans [OF mod_less_divisor])
    ultimately show ?thesis
      by (metis div_mult_mod_eq)
  qed
qed

lemma hd_to_radix_not_minus:
  "2 \<le> b \<Longrightarrow> b \<le> 36 \<Longrightarrow> hd (to_radix b n) \<noteq> 0x2D"
proof (induction b n rule: to_radix.induct)
  case (1 b n)
  show ?case
  proof (cases "n < b")
    case True
    with "1.prems" show ?thesis
      by (simp add: to_radix.simps [of b n] digit_char_not_minus)
  next
    case False
    with "1.IH" "1.prems" have "hd (to_radix b (n div b)) \<noteq> 0x2D"
      by auto
    with False "1.prems" show ?thesis
      by (simp add: to_radix.simps [of b n] to_radix_nonempty)
  qed
qed

lemma int_toString_inj:
  assumes "int_toString 36 i = int_toString 36 j"
  shows "i = j"
proof -
  have hd: "to_radix 36 n \<noteq> 0x2D # to_radix 36 m" for n m
  proof
    assume "to_radix 36 n = 0x2D # to_radix 36 m"
    then have "hd (to_radix 36 n) = 0x2D"
      by simp
    with hd_to_radix_not_minus [of 36 n] show False
      by simp
  qed
  show ?thesis
  proof (cases "i < 0"; cases "j < 0")
    assume "i < 0" "j < 0"
    with assms have "to_radix 36 (nat (- i)) = to_radix 36 (nat (- j))"
      by (simp add: int_toString_def)
    then have "nat (- i) = nat (- j)"
      by (intro to_radix_inj [of 36]) auto
    with \<open>i < 0\<close> \<open>j < 0\<close> show ?thesis by simp
  next
    assume "\<not> i < 0" "\<not> j < 0"
    with assms have "to_radix 36 (nat i) = to_radix 36 (nat j)"
      by (simp add: int_toString_def)
    then have "nat i = nat j"
      by (intro to_radix_inj [of 36]) auto
    with \<open>\<not> i < 0\<close> \<open>\<not> j < 0\<close> show ?thesis by simp
  next
    assume "i < 0" "\<not> j < 0"
    with assms hd [of "nat j" "nat (- i)"] show ?thesis
      by (simp add: int_toString_def)
  next
    assume "\<not> i < 0" "j < 0"
    with assms hd [of "nat i" "nat (- j)"] show ?thesis
      by (simp add: int_toString_def)
  qed
qed

lemma to_radix_length:
  "2 \<le> b \<Longrightarrow> b ^ k \<le> n \<Longrightarrow> n < b ^ Suc k \<Longrightarrow> length (to_radix b n) = Suc k"
proof (induction k arbitrary: n)
  case 0
  then show ?case
    by (simp add: to_radix.simps [of b n])
next
  case (Suc k)
  from Suc.prems have nb: "\<not> n < b"
    by (metis leD le_trans power_increasing [of 1 "Suc k" b] power_one_right One_nat_def Suc_le_mono
        le0 le_trans numeral_2_eq_2 Suc_leD)
  from Suc.prems have lo: "b ^ k \<le> n div b"
    by (simp add: less_eq_div_iff_mult_less_eq mult.commute)
  from Suc.prems have hi: "n div b < b ^ Suc k"
    by (simp add: div_less_iff_less_mult mult.commute)
  from Suc.IH [OF Suc.prems(1) lo hi] nb Suc.prems(1) show ?case
    by (simp add: to_radix.simps [of b n])
qed

text \<open>
  Every \<^verbatim>\<open>Date.now()\<close> from \<open>36\<^sup>7\<close> up to \<open>36\<^sup>8\<close> milliseconds, June 1972 to May
  2059, has eight digits in base 36.
\<close>

lemma makeId_time_digits:
  assumes "78364164096 \<le> date_now e" and "date_now e < 2821109907456"
  shows "length (int_toString 36 (date_now e)) = 8"
proof -
  have "(36::nat) ^ 7 \<le> nat (date_now e)" "nat (date_now e) < 36 ^ Suc 7"
    using assms by simp_all
  from to_radix_length [OF _ this] assms(1) show ?thesis
    by (simp add: int_toString_def)
qed

text \<open>
  C6, as the code has it. \<^verbatim>\<open>addTask\<close> gives the new task the id \<open>makeId e\<close>. For two
  calls whose \<^verbatim>\<open>Date.now()\<close> have the same number of base-36 digits (eight, between
  1972 and 2059), the ids are equal exactly when the calls read the same
  millisecond and the same five characters after \<^verbatim>\<open>0.\<close> of the random number.
\<close>

theorem makeId_collides_iff:
  assumes "length (int_toString 36 (date_now e1)) = length (int_toString 36 (date_now e2))"
  shows "makeId e1 = makeId e2 \<longleftrightarrow>
         date_now e1 = date_now e2 \<and> slice 2 7 (random_36 e1) = slice 2 7 (random_36 e2)"
  using assms by (auto simp: makeId_def dest: int_toString_inj)

lemma to_radix_now:
  "to_radix 36 1700000000000 = js ''loyw3v28''" "to_radix 36 1700000000001 = js ''loyw3v29''"
  by (simp_all add: to_radix.simps digit_char_def js_def)

theorem makeId_collides_iff_witness:
  "length (int_toString 36 (date_now env0)) = length (int_toString 36 (date_now env2)) \<and>
   makeId env0 \<noteq> makeId env2"
proof -
  have len: "length (int_toString 36 (date_now env0)) = length (int_toString 36 (date_now env2))"
    by (simp add: env0_def env2_def int_toString_def to_radix_now) (simp add: js_def)
  have "date_now env0 \<noteq> date_now env2"
    by (simp add: env0_def env2_def)
  with makeId_collides_iff [OF len] len show ?thesis
    by simp
qed

lemma trim_call: "trim (js ''Call'') = js ''Call''"
  by (simp add: trim_def js_def is_white_space_def)

text \<open>
  C6 as stated fails: two calls of \<^verbatim>\<open>addTask\<close> in the same millisecond, with different
  random numbers that agree on their first five base-36 digits, leave two tasks with
  the same id in the list.
\<close>

theorem addTask_twice_same_id:
  "addTask env0 (onInputChange (js '' Buy milk  '') initial) =
     Inr (Undefined, initial\<lparr>tasks := JArr [milk], tasks_ref := 1\<rparr>) \<and>
   addTask env1 (onInputChange (js ''Call'') (initial\<lparr>tasks := JArr [milk], tasks_ref := 1\<rparr>)) =
     Inr (Undefined, initial\<lparr>tasks := JArr [milk, call], tasks_ref := 2\<rparr>) \<and>
   random_36 env0 \<noteq> random_36 env1 \<and>
   get_prop milk (js ''id'') = get_prop call (js ''id'')"
proof -
  have id: "makeId env0 = makeId env1"
    by (simp add: makeId_def env0_def env1_def slice_def js_def)
  have ne: "trim (js '' Buy milk  '') \<noteq> []" "trim (js ''Call'') \<noteq> []"
    by (simp_all add: trim_milk trim_call) (simp_all add: js_def)
  have 1: "addTask env0 (onInputChange (js '' Buy milk  '') initial) =
     Inr (Undefined, initial\<lparr>tasks := JArr [milk], tasks_ref := 1\<rparr>)"
    using ne(1) addTask_array [of "onInputChange (js '' Buy milk  '') initial" "[]" env0]
    by (simp add: onInputChange_def initial_def milk_def trim_milk)
  have 2: "addTask env1 (onInputChange (js ''Call'') (initial\<lparr>tasks := JArr [milk], tasks_ref := 1\<rparr>)) =
     Inr (Undefined, initial\<lparr>tasks := JArr [milk, call], tasks_ref := 2\<rparr>)"
    using ne(2) addTask_array [of "onInputChange (js ''Call'') (initial\<lparr>tasks := JArr [milk], tasks_ref := 1\<rparr>)" "[milk]" env1]
    by (simp add: onInputChange_def initial_def call_def trim_call)
  have 3: "get_prop milk (js ''id'') = get_prop call (js ''id'')"
    by (simp add: milk_def call_def get_prop_task_obj id)
  have 4: "random_36 env0 \<noteq> random_36 env1"
    by (simp add: env0_def env1_def js_def)
  from 1 2 3 4 show ?thesis
    by simp
qed


subsection \<open>Loading\<close>

lemma parse_corrupt: "JSON_parse num corrupt_text = Inl SyntaxError"
  by (simp add: JSON_parse_def corrupt_text_def js_def tokenize.simps is_json_space_def
      is_digit_def)

lemma parse_malformed: "JSON_parse num malformed_text = Inr (JArr [blank_task, short_task])"
  by (simp add: JSON_parse_def malformed_text_def js_def tokenize.simps is_json_space_def
      is_digit_def define_own_def array_index_def blank_task_def short_task_def)

lemma load_effect_never_raises: "load_effect num ls s \<noteq> Inl e"
  by (simp add: load_effect_def try_catch_def split: sum.splits)

text \<open>
  What the \<^verbatim>\<open>try\<close> of the loading effect covers: when the key is absent, or when
  parsing the stored text raises, the effect returns normally and leaves the initial
  state, whose list is empty; the error, if any, goes to the console.
\<close>

lemma load_effect_falls_back:
  assumes "getItem ls STORAGE_KEY = Inr None \<or>
           (\<exists>raw e. getItem ls STORAGE_KEY = Inr (Some raw) \<and> JSON_parse num raw = Inl e)"
  shows "\<exists>log. load_effect num ls initial = Inr (initial, log) \<and> tasks initial = JArr []"
  using assms
  by (auto simp: load_effect_def try_catch_def initial_def)

lemma load_effect_falls_back_samples:
  "(\<exists>log. load_effect num0 empty_storage initial = Inr (initial, log)) \<and>
   (\<exists>log. load_effect num0 (storage_with corrupt_text) initial = Inr (initial, log)) \<and>
   getItem empty_storage STORAGE_KEY = Inr None \<and>
   getItem (storage_with corrupt_text) STORAGE_KEY = Inr (Some corrupt_text) \<and>
   JSON_parse num0 corrupt_text = Inl SyntaxError"
proof -
  have absent: "getItem empty_storage STORAGE_KEY = Inr None"
    by (simp add: getItem_def empty_storage_def)
  have corrupt: "getItem (storage_with corrupt_text) STORAGE_KEY = Inr (Some corrupt_text)"
    by (simp add: getItem_def storage_with_def)
  from load_effect_falls_back [of empty_storage num0] absent
  have 1: "\<exists>log. load_effect num0 empty_storage initial = Inr (initial, log)"
    by blast
  from load_effect_falls_back [of "storage_with corrupt_text" num0] corrupt
    parse_corrupt [of num0]
  have 2: "\<exists>log. load_effect num0 (storage_with corrupt_text) initial = Inr (initial, log)"
    by blast
  from 1 2 absent corrupt parse_corrupt [of num0] show ?thesis
    by blast
qed

lemma load_effect_parsed:
  assumes "getItem ls STORAGE_KEY = Inr (Some raw)" and "raw \<noteq> []"
    and "JSON_parse num raw = Inr v"
  shows "load_effect num ls s = Inr (s\<lparr>tasks := v, tasks_ref := Suc (tasks_ref s)\<rparr>, [])"
  using assms by (simp add: load_effect_def try_catch_def setTasks_def)

text \<open>
  C10. Whatever value the stored text parses to becomes the list, unchecked: no test
  on its shape, its ids or its texts stands between \<^verbatim>\<open>JSON.parse\<close> and \<^verbatim>\<open>setTasks\<close>.
\<close>

theorem load_effect_installs:
  assumes "getItem ls STORAGE_KEY = Inr (Some raw)" and "raw \<noteq> []"
    and "JSON_parse num raw = Inr v"
  shows "\<exists>s'. load_effect num ls initial = Inr (s', []) \<and> tasks s' = v"
  using load_effect_parsed [OF assms, of initial] by simp

text \<open>
  The list loaded from \<open>malformed_text\<close> has two records with the id \<^verbatim>\<open>a\<close>, the first
  with a text that trims to nothing, the second with no \<^verbatim>\<open>created_at\<close>.
\<close>

theorem load_effect_installs_witness:
  "(\<exists>s'. load_effect num0 (storage_with malformed_text) initial = Inr (s', []) \<and>
      tasks s' = JArr [blank_task, short_task]) \<and>
   has_id (js ''a'') blank_task \<and> has_id (js ''a'') short_task \<and>
   get_prop blank_task (js ''text'') = Inr (Val (JStr (js ''  ''))) \<and> trim (js ''  '') = [] \<and>
   get_prop short_task (js ''created_at'') = Inr Undefined"
proof -
  have stored: "getItem (storage_with malformed_text) STORAGE_KEY = Inr (Some malformed_text)"
    "malformed_text \<noteq> []"
    by (simp_all add: getItem_def storage_with_def malformed_text_def js_def)
  note load_effect_installs [OF stored parse_malformed, of num0]
  moreover have "has_id (js ''a'') blank_task" "has_id (js ''a'') short_task"
    "get_prop blank_task (js ''text'') = Inr (Val (JStr (js ''  '')))"
    "get_prop short_task (js ''created_at'') = Inr Undefined"
    by (simp_all add: has_id_def blank_task_def short_task_def js_keys_distinct)
  moreover have "trim (js ''  '') = []"
    by (simp add: trim_def js_def is_white_space_def)
  ultimately show ?thesis
    by blast
qed

lemma parse_null: "JSON_parse num null_text = Inr JNull"
  by (simp add: JSON_parse_def null_text_def js_def tokenize.simps is_json_space_def is_digit_def)

lemma load_stored_null:
  "load_effect num0 (storage_with null_text) initial =
     Inr (initial\<lparr>tasks := JNull, tasks_ref := 1\<rparr>, [])"
proof -
  have "getItem (storage_with null_text) STORAGE_KEY = Inr (Some null_text)" "null_text \<noteq> []"
    by (simp_all add: getItem_def storage_with_def null_text_def js_def)
  from load_effect_parsed [OF this parse_null, of num0 initial] show ?thesis
    by (simp add: initial_def)
qed

text \<open>
  C8 fails on the code at a stored text that is valid JSON and no list. For the text
  \<^verbatim>\<open>null\<close> the loading effect raises nothing, logs nothing and installs \<^verbatim>\<open>null\<close> as the
  list; the render that follows raises a TypeError on \<^verbatim>\<open>tasks.length\<close>, outside every
  \<^verbatim>\<open>try\<close>, so mounting the component raises.
\<close>

theorem mount_stored_null_raises:
  "getItem (storage_with null_text) STORAGE_KEY = Inr (Some null_text) \<and>
   load_effect num0 (storage_with null_text) initial =
     Inr (initial\<lparr>tasks := JNull, tasks_ref := 1\<rparr>, []) \<and>
   render (initial\<lparr>tasks := JNull, tasks_ref := 1\<rparr> :: nat state) = Inl TypeError \<and>
   mount num0 show0 (storage_with null_text) = Inl TypeError"
proof -
  have 1: "getItem (storage_with null_text) STORAGE_KEY = Inr (Some null_text)"
    by (simp add: getItem_def storage_with_def)
  have 3: "render (initial\<lparr>tasks := JNull, tasks_ref := 1\<rparr> :: nat state) = Inl TypeError"
    by (simp add: render_def)
  have p: "persist_effect show0 (initial :: nat state) (storage_with null_text) =
             Inr (storage_with (js ''[]''), [])"
    by (simp add: persist_effect_def try_catch_def setItem_def storage_with_def initial_def js_def)
  have r: "tasks_ref (initial\<lparr>tasks := JNull, tasks_ref := 1\<rparr> :: nat state) \<noteq>
           tasks_ref (initial :: nat state)"
    by (simp add: initial_def)
  have 4: "mount num0 show0 (storage_with null_text) = Inl TypeError"
    unfolding mount_def by (simp only: load_stored_null p r 3 sum.case prod.case if_False)
  from 1 load_stored_null 3 4 show ?thesis
    by simp
qed

text \<open>With no stored value, mounting leaves the empty list and writes it.\<close>

lemma mount_empty_storage:
  "mount num0 show0 empty_storage = Inr (initial, storage_with (js ''[]''), [])"
  by (simp add: mount_def load_effect_def try_catch_def getItem_def persist_effect_def setItem_def
      empty_storage_def storage_with_def initial_def js_def)


section \<open>Serialising and parsing\<close>

text \<open>
  The values on which the round trip is proved: no number, and in every object keys
  that are distinct and none an array index, so that the order of the members is the
  order of the properties. \<open>tokens_of\<close> is the token sequence of what
  \<^verbatim>\<open>JSON.stringify\<close> writes for such a value.
\<close>

fun plain :: "'n json \<Rightarrow> bool" where
  "plain (JNum n) = False"
| "plain (JArr xs) = list_all plain xs"
| "plain (JObj ms) =
     (distinct (map fst ms) \<and> list_all (\<lambda>m. array_index (fst m) = None \<and> plain (snd m)) ms)"
| "plain _ = True"

fun sep_comma :: "token list list \<Rightarrow> token list" where
  "sep_comma [] = []"
| "sep_comma [x] = x"
| "sep_comma (x # y # ys) = x @ TComma # sep_comma (y # ys)"

fun tokens_of :: "'n json \<Rightarrow> token list" where
  "tokens_of JNull = [TNull]"
| "tokens_of (JBool b) = [if b then TTrue else TFalse]"
| "tokens_of (JNum n) = []"
| "tokens_of (JStr s) = [TString s]"
| "tokens_of (JArr xs) = TLBracket # sep_comma (map tokens_of xs) @ [TRBracket]"
| "tokens_of (JObj ms) =
     TLBrace # sep_comma (map (\<lambda>m. TString (fst m) # TColon # tokens_of (snd m)) ms) @ [TRBrace]"


lemma hex_value_digit_char: "d < 16 \<Longrightarrow> hex_value (digit_char d) = Some d"
  by (simp add: hex_value_def word_le_nat_alt unat_digit_char)

lemma hex4_value:
  fixes n :: nat
  shows "((n div 4096 * 16 + n div 256 mod 16) * 16 + n div 16 mod 16) * 16 + n mod 16 = n"
proof -
  have a: "n div 4096 = n div 256 div 16" "n div 256 = n div 16 div 16"
    by (simp_all add: div_mult2_eq [symmetric])
  have "n div 4096 * 16 + n div 256 mod 16 = n div 256"
    unfolding a(1) by (rule div_mult_mod_eq)
  moreover have "n div 256 * 16 + n div 16 mod 16 = n div 16"
    unfolding a(2) by (rule div_mult_mod_eq)
  moreover have "n div 16 * 16 + n mod 16 = n"
    by (rule div_mult_mod_eq)
  ultimately show ?thesis
    by simp
qed


lemma unhex4_hex4:
  assumes "hex4 c = [h3, h2, h1, h0]"
  shows "unhex4 h3 h2 h1 h0 = Some c"
proof -
  define n where "n = unat c"
  have lt: "n < 65536"
    unfolding n_def using unsigned_less [of c, where ?'a = nat] by simp
  then have d: "n div 4096 < 16" "n div 256 mod 16 < 16" "n div 16 mod 16 < 16" "n mod 16 < 16"
    by simp_all
  from assms have h: "h3 = digit_char (n div 4096)" "h2 = digit_char (n div 256 mod 16)"
    "h1 = digit_char (n div 16 mod 16)" "h0 = digit_char (n mod 16)"
    by (simp_all add: hex4_def Let_def n_def)
  have "unhex4 h3 h2 h1 h0 =
          Some (of_nat (((n div 4096 * 16 + n div 256 mod 16) * 16 + n div 16 mod 16) * 16 + n mod 16))"
    unfolding h unhex4_def by (simp only: hex_value_digit_char [OF d(1)]
        hex_value_digit_char [OF d(2)] hex_value_digit_char [OF d(3)]
        hex_value_digit_char [OF d(4)] prod.case option.case)
  also have "\<dots> = Some (of_nat n)"
    by (simp only: hex4_value)
  also have "\<dots> = Some c"
    by (simp add: n_def)
  finally show ?thesis .
qed

lemma surrogate_plain:
  assumes "is_high_surrogate c \<or> is_low_surrogate c"
  shows "c \<noteq> 0x22" "c \<noteq> 0x5C" "\<not> c < 0x20"
  using assms
  by (auto simp: is_high_surrogate_def is_low_surrogate_def word_le_nat_alt word_less_nat_alt)

lemma lex_string_literal:
  "c \<noteq> 0x22 \<Longrightarrow> c \<noteq> 0x5C \<Longrightarrow> \<not> c < 0x20 \<Longrightarrow>
   lex_string (c # r) = map_option (\<lambda>(s, r'). (c # s, r')) (lex_string r)"
  by simp

lemma lex_string_quote_unit:
  "lex_string (quote_unit c @ r) = map_option (\<lambda>(s, r'). (c # s, r')) (lex_string r)"
proof -
  consider (short) "c = 0x08 \<or> c = 0x09 \<or> c = 0x0A \<or> c = 0x0C \<or> c = 0x0D \<or> c = 0x22 \<or> c = 0x5C"
    | (hex) "\<not> (c = 0x08 \<or> c = 0x09 \<or> c = 0x0A \<or> c = 0x0C \<or> c = 0x0D \<or> c = 0x22 \<or> c = 0x5C)"
        "c < 0x20 \<or> is_high_surrogate c \<or> is_low_surrogate c"
    | (lit) "\<not> (c = 0x08 \<or> c = 0x09 \<or> c = 0x0A \<or> c = 0x0C \<or> c = 0x0D \<or> c = 0x22 \<or> c = 0x5C)"
        "\<not> (c < 0x20 \<or> is_high_surrogate c \<or> is_low_surrogate c)"
    by blast
  then show ?thesis
  proof cases
    case short
    then show ?thesis
      by (auto simp: quote_unit_def unescape_def)
  next
    case hex
    obtain h3 h2 h1 h0 where h: "hex4 c = [h3, h2, h1, h0]"
      by (simp add: hex4_def Let_def)
    from hex have "quote_unit c = 0x5C # 0x75 # hex4 c"
      by (simp add: quote_unit_def)
    then show ?thesis
      by (simp add: h unhex4_hex4 [OF h])
  next
    case lit
    then have "quote_unit c = [c]"
      by (simp add: quote_unit_def)
    with lit show ?thesis
      by simp
  qed
qed

lemma lex_string_quote_units:
  "lex_string (quote_units s @ 0x22 # r) = Some (s, r)"
proof (induction s rule: quote_units.induct)
  case 1
  show ?case by simp
next
  case (2 c)
  show ?case
    by (simp add: lex_string_quote_unit)
next
  case (3 c d cs)
  show ?case
  proof (cases "is_high_surrogate c \<and> is_low_surrogate d")
    case True
    then have "lex_string (c # d # quote_units cs @ 0x22 # r) = Some (c # d # cs, r)"
      using "3.IH"(1) surrogate_plain [of c] surrogate_plain [of d]
      by (simp only: lex_string_literal) simp
    with True show ?thesis
      by simp
  next
    case False
    then have "quote_units (c # d # cs) = quote_unit c @ quote_units (d # cs)"
      by auto
    then have "lex_string (quote_units (c # d # cs) @ 0x22 # r) =
               lex_string (quote_unit c @ (quote_units (d # cs) @ 0x22 # r))"
      by (simp only: append_assoc)
    also have "\<dots> = map_option (\<lambda>(s, r'). (c # s, r')) (lex_string (quote_units (d # cs) @ 0x22 # r))"
      by (rule lex_string_quote_unit)
    also have "\<dots> = Some (c # d # cs, r)"
    proof -
      from "3.IH"(2) False have "lex_string (quote_units (d # cs) @ 0x22 # r) = Some (d # cs, r)"
        by blast
      then show ?thesis
        by (simp only: option.map prod.case)
    qed
    finally show ?thesis .
  qed
qed

lemma tokenize_quote_json:
  "tokenize (quote_json s @ r) = map_option (Cons (TString s)) (tokenize r)"
  by (simp add: quote_json_def tokenize.simps(2) is_json_space_def lex_string_quote_units)

lemma tokenize_punct:
  "tokenize (0x5B # r) = map_option (Cons TLBracket) (tokenize r)"
  "tokenize (0x5D # r) = map_option (Cons TRBracket) (tokenize r)"
  "tokenize (0x7B # r) = map_option (Cons TLBrace) (tokenize r)"
  "tokenize (0x7D # r) = map_option (Cons TRBrace) (tokenize r)"
  "tokenize (0x2C # r) = map_option (Cons TComma) (tokenize r)"
  "tokenize (0x3A # r) = map_option (Cons TColon) (tokenize r)"
  by (simp_all add: tokenize.simps(2) is_json_space_def)

lemma tokenize_words:
  "tokenize (js ''null'' @ r) = map_option (Cons TNull) (tokenize r)"
  "tokenize (js ''true'' @ r) = map_option (Cons TTrue) (tokenize r)"
  "tokenize (js ''false'' @ r) = map_option (Cons TFalse) (tokenize r)"
  by (simp_all add: js_def tokenize.simps(2) is_json_space_def is_digit_def)

lemma map_option_append:
  "map_option ((@) xs) (map_option ((@) ys) t) = map_option ((@) (xs @ ys)) t"
  "map_option (Cons x) (map_option ((@) ys) t) = map_option ((@) (x # ys)) t"
  "map_option ((@) xs) (map_option (Cons y) t) = map_option ((@) (xs @ [y])) t"
  by (cases t; simp)+

lemma tokenize_join:
  assumes "\<And>x r. x \<in> set xs \<Longrightarrow> tokenize (f x @ r) = map_option ((@) (g x)) (tokenize r)"
  shows "tokenize (join_comma (map f xs) @ r) = map_option ((@) (sep_comma (map g xs))) (tokenize r)"
  using assms
proof (induction xs rule: induct_list012)
  case 1
  show ?case by (cases "tokenize r") simp_all
next
  case (2 x)
  then show ?case by simp
next
  case (3 x y zs)
  have "tokenize (join_comma (map f (x # y # zs)) @ r) =
        tokenize (f x @ (0x2C # join_comma (map f (y # zs)) @ r))"
    by simp
  also have "\<dots> = map_option ((@) (g x)) (tokenize (0x2C # join_comma (map f (y # zs)) @ r))"
    by (rule "3.prems") simp
  also have "\<dots> = map_option ((@) (g x)) (map_option (Cons TComma)
                     (map_option ((@) (sep_comma (map g (y # zs)))) (tokenize r)))"
    using "3.IH"(2) "3.prems" by (simp only: tokenize_punct) simp
  also have "\<dots> = map_option ((@) (sep_comma (map g (x # y # zs)))) (tokenize r)"
    by (cases "tokenize r") simp_all
  finally show ?case .
qed

lemma tokenize_stringify:
  "plain v \<Longrightarrow> tokenize (JSON_stringify shw v @ r) = map_option ((@) (tokens_of v)) (tokenize r)"
proof (induction v arbitrary: r)
  case JNull
  show ?case by (cases "tokenize r") (simp_all add: tokenize_words)
next
  case (JBool b)
  show ?case by (cases "tokenize r") (simp_all add: tokenize_words)
next
  case (JNum n)
  then show ?case by simp
next
  case (JStr s)
  show ?case by (cases "tokenize r") (simp_all add: tokenize_quote_json)
next
  case (JArr xs)
  have el: "tokenize (JSON_stringify shw x @ r') = map_option ((@) (tokens_of x)) (tokenize r')"
    if "x \<in> set xs" for x r'
    using JArr.IH [OF that] JArr.prems that by (simp add: list_all_iff)
  have "tokenize (JSON_stringify shw (JArr xs) @ r) =
        map_option (Cons TLBracket) (tokenize (join_comma (map (JSON_stringify shw) xs) @ (0x5D # r)))"
    by (simp add: tokenize_punct)
  also have "\<dots> = map_option (Cons TLBracket) (map_option ((@) (sep_comma (map tokens_of xs)))
                       (map_option (Cons TRBracket) (tokenize r)))"
    by (simp only: tokenize_join [of xs "JSON_stringify shw" tokens_of, OF el] tokenize_punct)
  also have "\<dots> = map_option ((@) (tokens_of (JArr xs))) (tokenize r)"
    by (cases "tokenize r") simp_all
  finally show ?case .
next
  case (JObj ms)
  let ?f = "\<lambda>m. quote_json (fst m) @ 0x3A # JSON_stringify shw (snd m)"
  let ?g = "\<lambda>m. TString (fst m) # TColon # tokens_of (snd m)"
  have el: "tokenize (?f m @ r') = map_option ((@) (?g m)) (tokenize r')"
    if "m \<in> set ms" for m r'
  proof -
    from that JObj.prems have "plain (snd m)"
      by (simp add: list_all_iff)
    moreover have "snd m \<in> Basic_BNFs.snds m"
      by (cases m) simp
    ultimately have "tokenize (JSON_stringify shw (snd m) @ r') =
                     map_option ((@) (tokens_of (snd m))) (tokenize r')"
      using JObj.IH that by blast
    then show ?thesis
      by (cases "tokenize r'") (simp_all add: tokenize_quote_json tokenize_punct)
  qed
  have "tokenize (JSON_stringify shw (JObj ms) @ r) =
        map_option (Cons TLBrace) (tokenize (join_comma (map ?f ms) @ (0x7D # r)))"
    by (simp add: tokenize_punct)
  also have "\<dots> = map_option (Cons TLBrace) (map_option ((@) (sep_comma (map ?g ms)))
                       (map_option (Cons TRBrace) (tokenize r)))"
    by (simp only: tokenize_join [of ms ?f ?g, OF el] tokenize_punct)
  also have "\<dots> = map_option ((@) (tokens_of (JObj ms))) (tokenize r)"
    by (cases "tokenize r") simp_all
  finally show ?case .
qed

lemma sep_comma_Cons:
  "sep_comma (x # xs) = x @ concat (map (Cons TComma) xs)"
  by (induction xs arbitrary: x) simp_all

lemma insert_own_append:
  "array_index k = None \<Longrightarrow> insert_own k v ms = ms @ [(k, v)]"
  by (induction k v ms rule: insert_own.induct) simp_all

lemma define_own_append:
  "k \<notin> fst ` set ms \<Longrightarrow> array_index k = None \<Longrightarrow> define_own k v ms = ms @ [(k, v)]"
  by (simp add: define_own_def insert_own_append)

lemma fold_define_own:
  "distinct (map fst (acc @ ms)) \<Longrightarrow> list_all (\<lambda>m. array_index (fst m) = None) ms \<Longrightarrow>
   fold (\<lambda>m a. define_own (fst m) (snd m) a) ms acc = acc @ ms"
proof (induction ms arbitrary: acc)
  case Nil
  show ?case by simp
next
  case (Cons m ms)
  from Cons.prems have "define_own (fst m) (snd m) acc = acc @ [m]"
    by (simp add: define_own_append)
  moreover from Cons.prems have "distinct (map fst ((acc @ [m]) @ ms))"
    "list_all (\<lambda>m. array_index (fst m) = None) ms"
    by simp_all
  ultimately show ?case
    using Cons.IH [of "acc @ [m]"] by simp
qed

lemma tokens_of_head:
  "plain v \<Longrightarrow> \<exists>t ts. tokens_of v = t # ts \<and> t \<noteq> TRBracket"
  by (cases v) auto

lemma run_ArrayStart:
  assumes "plain v"
  shows "run num (ArrayStart, st) (tokens_of v @ ts) =
         run num (WantValue, InArray [] # st) (tokens_of v @ ts)"
proof -
  from tokens_of_head [OF assms] obtain t ts' where "tokens_of v = t # ts'" "t \<noteq> TRBracket"
    by blast
  then show ?thesis
    by simp
qed

lemma run_elements:
  assumes "\<And>y st ts. y \<in> set ys \<Longrightarrow>
             run num (WantValue, st) (tokens_of y @ ts) = run num (Have y, st) ts"
  shows "run num (Have x, InArray es # st)
           (concat (map (Cons TComma) (map tokens_of ys)) @ TRBracket # ts) =
         run num (Have (JArr (es @ x # ys)), st) ts"
  using assms
proof (induction ys arbitrary: es x)
  case Nil
  show ?case by simp
next
  case (Cons y ys)
  have "run num (Have x, InArray es # st)
          (concat (map (Cons TComma) (map tokens_of (y # ys))) @ TRBracket # ts) =
        run num (WantValue, InArray (es @ [x]) # st)
          (tokens_of y @ (concat (map (Cons TComma) (map tokens_of ys)) @ TRBracket # ts))"
    by simp
  also have "\<dots> = run num (Have y, InArray (es @ [x]) # st)
                     (concat (map (Cons TComma) (map tokens_of ys)) @ TRBracket # ts)"
    by (rule Cons.prems) simp
  also have "\<dots> = run num (Have (JArr ((es @ [x]) @ y # ys)), st) ts"
    by (rule Cons.IH) (simp add: Cons.prems)
  finally show ?case by simp
qed

lemma run_members:
  assumes "\<And>m st ts. m \<in> set ms \<Longrightarrow>
             run num (WantValue, st) (tokens_of (snd m) @ ts) = run num (Have (snd m), st) ts"
  shows "run num (Have v, InObject acc k # st)
           (concat (map (Cons TComma) (map (\<lambda>m. TString (fst m) # TColon # tokens_of (snd m)) ms))
            @ TRBrace # ts) =
         run num (Have (JObj (fold (\<lambda>m a. define_own (fst m) (snd m) a) ms (define_own k v acc))), st) ts"
  using assms
proof (induction ms arbitrary: acc k v)
  case Nil
  show ?case by simp
next
  case (Cons m ms)
  let ?rest = "concat (map (Cons TComma) (map (\<lambda>m. TString (fst m) # TColon # tokens_of (snd m)) ms))
            @ TRBrace # ts"
  have "run num (Have v, InObject acc k # st)
          (concat (map (Cons TComma) (map (\<lambda>m. TString (fst m) # TColon # tokens_of (snd m)) (m # ms)))
            @ TRBrace # ts) =
        run num (WantValue, InObject (define_own k v acc) (fst m) # st) (tokens_of (snd m) @ ?rest)"
    by simp
  also have "\<dots> = run num (Have (snd m), InObject (define_own k v acc) (fst m) # st) ?rest"
    by (rule Cons.prems) simp
  also have "\<dots> = run num (Have (JObj (fold (\<lambda>m a. define_own (fst m) (snd m) a) ms
                       (define_own (fst m) (snd m) (define_own k v acc)))), st) ts"
    by (rule Cons.IH) (simp add: Cons.prems)
  finally show ?case by simp
qed

lemma run_tokens_of:
  "plain v \<Longrightarrow> run num (WantValue, st) (tokens_of v @ ts) = run num (Have v, st) ts"
proof (induction v arbitrary: st ts)
  case JNull
  show ?case by simp
next
  case (JBool b)
  show ?case by simp
next
  case (JNum n)
  then show ?case by simp
next
  case (JStr s)
  show ?case by simp
next
  case (JArr xs)
  have el: "run num (WantValue, st') (tokens_of y @ ts') = run num (Have y, st') ts'"
    if "y \<in> set xs" for y st' ts'
    using JArr.IH [OF that] JArr.prems that by (simp add: list_all_iff)
  show ?case
  proof (cases xs)
    case Nil
    then show ?thesis by simp
  next
    case (Cons x ys)
    with JArr.prems have px: "plain x"
      by simp
    let ?rest = "concat (map (Cons TComma) (map tokens_of ys)) @ TRBracket # ts"
    have "run num (WantValue, st) (tokens_of (JArr xs) @ ts) =
          run num (ArrayStart, st) (tokens_of x @ ?rest)"
      by (simp add: Cons sep_comma_Cons)
    also have "\<dots> = run num (WantValue, InArray [] # st) (tokens_of x @ ?rest)"
      by (rule run_ArrayStart [OF px])
    also have "\<dots> = run num (Have x, InArray [] # st) ?rest"
      by (rule el) (simp add: Cons)
    also have "\<dots> = run num (Have (JArr ([] @ x # ys)), st) ts"
      by (rule run_elements) (simp add: el Cons)
    finally show ?thesis
      by (simp add: Cons)
  qed
next
  case (JObj ms)
  have el: "run num (WantValue, st') (tokens_of (snd m) @ ts') = run num (Have (snd m), st') ts'"
    if "m \<in> set ms" for m st' ts'
  proof -
    from that JObj.prems have "plain (snd m)"
      by (simp add: list_all_iff)
    moreover have "snd m \<in> Basic_BNFs.snds m"
      by (cases m) simp
    ultimately show ?thesis
      using JObj.IH that by blast
  qed
  from JObj.prems have canon: "distinct (map fst ([] @ ms))"
    "list_all (\<lambda>m. array_index (fst m) = None) ms"
    by (simp_all add: list_all_iff)
  show ?case
  proof (cases ms)
    case Nil
    then show ?thesis by simp
  next
    case (Cons m ms')
    let ?rest = "concat (map (Cons TComma)
                   (map (\<lambda>m. TString (fst m) # TColon # tokens_of (snd m)) ms')) @ TRBrace # ts"
    have "run num (WantValue, st) (tokens_of (JObj ms) @ ts) =
          run num (WantValue, InObject [] (fst m) # st) (tokens_of (snd m) @ ?rest)"
      by (simp add: Cons sep_comma_Cons)
    also have "\<dots> = run num (Have (snd m), InObject [] (fst m) # st) ?rest"
      by (rule el) (simp add: Cons)
    also have "\<dots> = run num (Have (JObj (fold (\<lambda>m a. define_own (fst m) (snd m) a) ms'
                         (define_own (fst m) (snd m) []))), st) ts"
      by (rule run_members) (simp add: el Cons)
    also have "\<dots> = run num (Have (JObj (fold (\<lambda>m a. define_own (fst m) (snd m) a) ms [])), st) ts"
      by (simp add: Cons)
    also have "\<dots> = run num (Have (JObj ms), st) ts"
      using fold_define_own [OF canon] by simp
    finally show ?thesis .
  qed
qed

lemma parse_stringify_plain:
  assumes "plain v"
  shows "JSON_parse num (JSON_stringify shw v) = Inr v"
proof -
  from tokenize_stringify [OF assms, of shw "[]"]
  have "tokenize (JSON_stringify shw v) = Some (tokens_of v)"
    by simp
  moreover from run_tokens_of [OF assms, of num "[]" "[]"]
  have "run num (WantValue, []) (tokens_of v) = Some v"
    by simp
  ultimately show ?thesis
    by (simp add: JSON_parse_def)
qed

lemma array_index_task_keys:
  "array_index (js ''id'') = None" "array_index (js ''text'') = None"
  "array_index (js ''created_at'') = None"
  by (simp_all add: array_index_def js_def)

lemma plain_task_obj: "plain (task_obj t)"
  by (simp add: task_obj_def array_index_task_keys js_keys_distinct)

lemma plain_tasks: "plain (JArr (map task_obj ts))"
  by (simp add: list_all_iff plain_task_obj)

text \<open>
  C7. For every list of tasks, parsing what \<^verbatim>\<open>JSON.stringify\<close> writes for it gives the
  same list back: the same tasks with the same \<^verbatim>\<open>id\<close>, \<^verbatim>\<open>text\<close> and \<^verbatim>\<open>created_at\<close>, in
  the same order.
\<close>

theorem JSON_roundtrip_tasks:
  fixes num :: "jsstring \<Rightarrow> 'n" and shw :: "'n \<Rightarrow> jsstring"
  shows "JSON_parse num (JSON_stringify shw (JArr (map task_obj ts))) = Inr (JArr (map task_obj ts))"
  by (rule parse_stringify_plain) (rule plain_tasks)


subsection \<open>Persisting\<close>

lemma with_text_same: "with_text (js ''X'') task_a = task_a"
  by (simp add: with_text_def task_a_def task_obj_def define_own_def js_keys_distinct)

lemma persist_effect_writes:
  "\<not> denied ls \<Longrightarrow> \<not> full ls \<Longrightarrow>
   persist_effect shw s ls =
     Inr (ls\<lparr>items := (items ls)(STORAGE_KEY \<mapsto> JSON_stringify shw (tasks s))\<rparr>, [])"
  by (simp add: persist_effect_def try_catch_def setItem_def)

text \<open>
  C9, as the code has it. With a text that does not trim to nothing, on a list \<open>xs\<close>
  with no \<^verbatim>\<open>null\<close> element, \<^verbatim>\<open>saveEdit(id)\<close> leaves a list of the same length; at every
  position, a task whose id is not \<open>id\<close> is unchanged, and a task whose id is \<open>id\<close>
  keeps every property but \<^verbatim>\<open>text\<close>, so its \<^verbatim>\<open>id\<close> and \<^verbatim>\<open>created_at\<close>. The list is a new
  array in every case, so the persisting effect runs after the render that follows,
  whether or not any text changed.
\<close>

theorem saveEdit_frame:
  assumes "tasks s = JArr xs" and "JNull \<notin> set xs" and "trim raw \<noteq> []"
  shows "\<exists>ys s'. saveEdit tid (onEditChange raw s) = Inr (Undefined, s') \<and>
           tasks s' = JArr ys \<and> length ys = length xs \<and>
           (\<forall>i<length xs.
              if has_id tid (xs ! i)
              then \<forall>k. k \<noteq> js ''text'' \<longrightarrow> get_prop (ys ! i) k = get_prop (xs ! i) k
              else ys ! i = xs ! i) \<and>
           rerender_effects shw (onEditChange raw s) s' ls = persist_effect shw s' ls"
proof -
  let ?s = "onEditChange raw s"
  have "editingText ?s = Val (JStr raw)" "tasks ?s = JArr xs"
    using assms(1) by (simp_all add: onEditChange_def)
  from saveEdit_array [OF this(1) assms(3) this(2) assms(2), of tid] show ?thesis
    by (simp add: get_prop_with_text rerender_effects_def)
qed

theorem saveEdit_frame_witness:
  "\<exists>ys s'. saveEdit (js ''a'') (onEditChange (js '' Buy milk  '') editing_a) = Inr (Undefined, s') \<and>
     tasks s' = JArr ys \<and> length ys = 2 \<and>
     get_prop (ys ! 0) (js ''id'') = get_prop task_a (js ''id'') \<and>
     get_prop (ys ! 0) (js ''created_at'') = get_prop task_a (js ''created_at'') \<and>
     ys ! 1 = task_b \<and>
     rerender_effects show0 (onEditChange (js '' Buy milk  '') editing_a) s' empty_storage =
       persist_effect show0 s' empty_storage"
proof -
  have ne: "trim (js '' Buy milk  '') \<noteq> []"
    by (simp add: trim_milk) (simp add: js_def)
  from saveEdit_frame [OF editing_a_tasks ne, of "js ''a''" show0 empty_storage]
  obtain ys s' where *:
    "saveEdit (js ''a'') (onEditChange (js '' Buy milk  '') editing_a) = Inr (Undefined, s')"
    "tasks s' = JArr ys" "length ys = length [task_a, task_b]"
    "\<forall>i<length [task_a, task_b].
        if has_id (js ''a'') ([task_a, task_b] ! i)
        then \<forall>k. k \<noteq> js ''text'' \<longrightarrow> get_prop (ys ! i) k = get_prop ([task_a, task_b] ! i) k
        else ys ! i = [task_a, task_b] ! i"
    "rerender_effects show0 (onEditChange (js '' Buy milk  '') editing_a) s' empty_storage =
       persist_effect show0 s' empty_storage"
    by blast
  from *(4) [rule_format, of 0] has_id_a(1)
  have 0: "\<forall>k. k \<noteq> js ''text'' \<longrightarrow> get_prop (ys ! 0) k = get_prop task_a k"
    by simp
  from *(4) [rule_format, of 1] has_id_a(2)
  have 1: "ys ! 1 = task_b"
    by simp
  from 0 have "get_prop (ys ! 0) (js ''id'') = get_prop task_a (js ''id'')"
    "get_prop (ys ! 0) (js ''created_at'') = get_prop task_a (js ''created_at'')"
    by (simp_all add: js_keys_distinct)
  with * 1 show ?thesis
    by auto
qed

text \<open>
  C9 as stated fails on the write: committing the text \<^verbatim>\<open>X\<close> that the task \<^verbatim>\<open>a\<close>
  already has leaves the list equal to what it was, and the persisting effect still
  runs and writes the list to a store that was empty.
\<close>

theorem saveEdit_same_text_persists:
  "saveEdit (js ''a'') editing_a =
     Inr (Undefined, editing_a\<lparr>tasks_ref := 3, editingId := Val JNull, editingText := Val (JStr [])\<rparr>) \<and>
   tasks (editing_a\<lparr>tasks_ref := 3, editingId := Val JNull, editingText := Val (JStr [])\<rparr>) =
     tasks editing_a \<and>
   rerender_effects show0 editing_a
       (editing_a\<lparr>tasks_ref := 3, editingId := Val JNull, editingText := Val (JStr [])\<rparr>)
       empty_storage =
     Inr (storage_with (JSON_stringify show0 (JArr [task_a, task_b])), []) \<and>
   getItem empty_storage STORAGE_KEY \<noteq>
     getItem (storage_with (JSON_stringify show0 (JArr [task_a, task_b]))) STORAGE_KEY"
proof -
  let ?s' = "editing_a\<lparr>tasks_ref := 3, editingId := Val JNull, editingText := Val (JStr [])\<rparr>"
  have tx: "trim (js ''X'') = js ''X''" "js ''X'' \<noteq> []"
    by (simp_all add: trim_def js_def is_white_space_def)
  have et: "editingText editing_a = Val (JStr (js ''X''))"
    by (simp add: editing_a_def)
  have 1: "saveEdit (js ''a'') editing_a = Inr (Undefined, ?s')"
    using saveEdit_array [OF et _ editing_a_tasks, of "js ''a''"] tx
    by (simp add: has_id_a with_text_same) (simp add: editing_a_def)
  have 2: "tasks ?s' = tasks editing_a"
    by simp
  have 3: "rerender_effects show0 editing_a ?s' empty_storage =
             Inr (storage_with (JSON_stringify show0 (JArr [task_a, task_b])), [])"
    by (simp add: rerender_effects_def persist_effect_def try_catch_def setItem_def
        empty_storage_def storage_with_def editing_a_def)
  have 4: "getItem empty_storage STORAGE_KEY \<noteq>
     getItem (storage_with (JSON_stringify show0 (JArr [task_a, task_b]))) STORAGE_KEY"
    by (simp add: getItem_def empty_storage_def storage_with_def)
  from 1 2 3 4 show ?thesis
    by blast
qed

text \<open>
  Across a restart: what the persisting effect wrote for a list of tasks is what the
  loading effect installs.
\<close>

lemma persist_then_load:
  fixes num :: "jsstring \<Rightarrow> 'n" and shw :: "'n \<Rightarrow> jsstring"
  assumes "tasks s = JArr (map task_obj ts)" and "\<not> denied ls" and "\<not> full ls"
  shows "\<exists>ls' s'. persist_effect shw s ls = Inr (ls', []) \<and>
           load_effect num ls' initial = Inr (s', []) \<and> tasks s' = tasks s"
proof -
  let ?text = "JSON_stringify shw (JArr (map task_obj ts) :: 'n json)"
  let ?ls' = "ls\<lparr>items := (items ls)(STORAGE_KEY \<mapsto> ?text)\<rparr>"
  have 1: "persist_effect shw s ls = Inr (?ls', [])"
    using assms by (simp add: persist_effect_writes)
  have 2: "getItem ?ls' STORAGE_KEY = Inr (Some ?text)" "?text \<noteq> []"
    using assms(2) by (simp_all add: getItem_def)
  have 3: "JSON_parse num ?text = Inr (JArr (map task_obj ts))"
    by (rule parse_stringify_plain) (rule plain_tasks)
  from load_effect_parsed [OF 2 3, of initial] 1 assms(1) show ?thesis
    by simp
qed


end
